theory Spec2Isabelle
  imports Complex_Main
begin

section \<open>Credentials, token responses and outcomes\<close>

text \<open>
  The OAuth adapter of \<^verbatim>\<open>providers/qwen_auth_base.py\<close> keeps credentials as
  string-keyed dictionaries read from JSON. The keys the adapter reads become the fields
  of a record; a field is \<open>Absent\<close> when the key is missing, \<open>Null\<close> when it holds
  \<^verbatim>\<open>None\<close>, and \<open>Val v\<close> when it holds a value of the type the credential file format
  gives it. Keys the adapter never reads are kept in \<open>extras\<close>, so that the emptiness
  test \<^verbatim>\<open>if creds\<close> of the source can be written. Times are Python floats; they are
  modelled as reals.
\<close>

type_synonym path = string

datatype 'a field = Absent | Null | Val 'a

record metadata =
  email :: "string field"
  last_check_timestamp :: "real field"
  loaded_from_env :: bool
  env_credential_index :: "string field"
  display_name :: "string field"

record creds =
  access_token :: "string field"
  refresh_token :: "string field"
  expiry_date :: "real field"
  resource_url :: "string field"
  proxy_metadata :: "metadata field"
  extras :: "(string \<times> string) list"

text \<open>The JSON object a token endpoint answers with.\<close>

record token_data =
  td_access_token :: "string field"
  td_refresh_token :: "string field"
  td_expires_in :: "real field"
  td_resource_url :: "string field"

datatype exn =
    IOError
  | OSError
  | ValueError
  | KeyError
  | TypeError
  | AttributeError
  | HTTPStatusError nat
  | RequestError
  | TimeoutError
  | PlainException

text \<open>
  A call returns, raises, or never comes back: \<open>Blocks\<close> is a task waiting for an
  \<^verbatim>\<open>asyncio.Lock\<close> that is held (the lock is not reentrant, and the model runs one task, so
  nobody releases it). \<open>OutOfFuel\<close> only marks the end of the recursion bound of
  \<open>refresh_token_fuel\<close> and \<open>initialize_token_fuel\<close>.
\<close>

datatype 'a outcome = Returns 'a | Raises exn | Blocks | OutOfFuel

datatype retry_after = RetryAbsent | RetrySeconds int | RetryMalformed

text \<open>
  What one POST to the token endpoint ends in: a successful response with its JSON body
  (\<open>None\<close> for the JSON value null), \<^verbatim>\<open>raise_for_status\<close> raising for a status code
  (with the Retry-After header), or a transport error.
\<close>

datatype http_result =
    Response "token_data option"
  | StatusError nat retry_after
  | NetworkError

text \<open>
  What the interactive device-code conversation ends in: an exception (device request
  refused, polling error, no token before the code expires, timeout of the coordinator),
  or the token data together with the answer to the e-mail prompt (\<open>None\<close> when the
  prompt is interrupted).
\<close>

datatype flow_result = FlowFails exn | FlowTokens token_data "string option"

datatype file_content = Garbage | Json creds

section \<open>The state of the adapter and of its surroundings\<close>

text \<open>
  The first group of fields are the attributes of \<^verbatim>\<open>QwenAuthBase\<close>. \<open>refresh_locks\<close>
  holds the paths whose per-credential lock is currently held, and
  \<open>queue_processor_task\<close> tells whether a worker task exists. The second group is the
  world the adapter talks to: the file system (with the paths that cannot be written),
  the process environment, Python's \<^verbatim>\<open>float\<close> on strings, the successive readings of
  \<^verbatim>\<open>time.time()\<close>, and the successive answers of the token endpoint and of the
  device-code flow.
\<close>

record state =
  credentials_cache :: "path \<rightharpoonup> creds"
  refresh_locks :: "path set"
  refresh_failures :: "path \<rightharpoonup> nat"
  next_refresh_after :: "path \<rightharpoonup> real"
  refresh_queue :: "(path \<times> bool \<times> bool) list"
  queued_credentials :: "path set"
  unavailable_credentials :: "path \<rightharpoonup> real"
  unavailable_ttl_seconds :: int
  queue_processor_task :: bool
  files :: "path \<rightharpoonup> file_content"
  unwritable :: "path set"
  environ :: "string \<rightharpoonup> string"
  float_of :: "string \<Rightarrow> real option"
  clock :: "nat \<Rightarrow> real"
  ticks :: nat
  token_endpoint :: "nat \<Rightarrow> http_result"
  posts :: nat
  device_flow :: "nat \<Rightarrow> flow_result"
  flows :: nat

definition REFRESH_EXPIRY_BUFFER_SECONDS :: real where
  "REFRESH_EXPIRY_BUFFER_SECONDS = 3 * 60 * 60"

definition DEFAULT_BASE_URL :: string where
  "DEFAULT_BASE_URL = ''https://portal.qwen.ai/v1''"

text \<open>\<^verbatim>\<open>time.time()\<close>: the next reading of the clock.\<close>

definition time_time :: "state \<Rightarrow> real \<times> state" where
  "time_time s = (clock s (ticks s), s\<lparr>ticks := Suc (ticks s)\<rparr>)"

text \<open>
  Python truthiness of what \<^verbatim>\<open>dict.get\<close> answers for a string key, and of a credential
  dictionary.
\<close>

definition truthy :: "string field \<Rightarrow> bool" where
  "truthy v = (case v of Val x \<Rightarrow> x \<noteq> [] | _ \<Rightarrow> False)"

definition empty_creds :: creds where
  "empty_creds = \<lparr>access_token = Absent, refresh_token = Absent, expiry_date = Absent,
     resource_url = Absent, proxy_metadata = Absent, extras = []\<rparr>"

definition empty_metadata :: metadata where
  "empty_metadata = \<lparr>email = Absent, last_check_timestamp = Absent, loaded_from_env = False,
     env_credential_index = Absent, display_name = Absent\<rparr>"

definition dict_truthy :: "creds option \<Rightarrow> bool" where
  "dict_truthy v = (case v of None \<Rightarrow> False | Some c \<Rightarrow> c \<noteq> empty_creds)"

text \<open>The attributes as \<^verbatim>\<open>__init__\<close> sets them, in a given world.\<close>

definition init_state :: "state \<Rightarrow> state" where
  "init_state w = w\<lparr>credentials_cache := Map.empty, refresh_locks := {},
     refresh_failures := Map.empty, next_refresh_after := Map.empty, refresh_queue := [],
     queued_credentials := {}, unavailable_credentials := Map.empty,
     unavailable_ttl_seconds := 300, queue_processor_task := False\<rparr>"

section \<open>Availability and admission to the refresh queue\<close>

text \<open>\<^verbatim>\<open>is_credential_available\<close>: the answer and the state after the lazy clean-up.\<close>

definition is_credential_available :: "path \<Rightarrow> state \<Rightarrow> bool \<times> state" where
  "is_credential_available p s =
     (case unavailable_credentials s p of
        None \<Rightarrow> (True, s)
      | Some marked_time \<Rightarrow>
          (let (now, s1) = time_time s
           in if now - marked_time > real_of_int (unavailable_ttl_seconds s1)
              then (True, s1\<lparr>unavailable_credentials := (unavailable_credentials s1)(p := None)\<rparr>)
              else (False, s1)))"

text \<open>
  \<^verbatim>\<open>_queue_refresh\<close>. The clock is read for the backoff test only when
  \<open>needs_reauth\<close> is false, and once more for the stamp. The tracking lock is held
  only inside this block and inside the worker's short blocks, never across another
  acquisition of itself, so it does not appear in the state.
\<close>

definition in_backoff :: "path \<Rightarrow> real \<Rightarrow> state \<Rightarrow> bool" where
  "in_backoff p now s =
     (case next_refresh_after s p of None \<Rightarrow> False | Some backoff_until \<Rightarrow> now < backoff_until)"

definition enqueue_tracked :: "path \<Rightarrow> bool \<Rightarrow> bool \<Rightarrow> state \<Rightarrow> state" where
  "enqueue_tracked p force needs_reauth s =
     (if p \<in> queued_credentials s then s
      else
        (let s1 = s\<lparr>queued_credentials := insert p (queued_credentials s)\<rparr>;
             (stamp, s2) = time_time s1
         in s2\<lparr>unavailable_credentials := (unavailable_credentials s2)(p \<mapsto> stamp),
                refresh_queue := refresh_queue s2 @ [(p, force, needs_reauth)],
                queue_processor_task := True\<rparr>))"

definition queue_refresh :: "path \<Rightarrow> bool \<Rightarrow> bool \<Rightarrow> state \<Rightarrow> state" where
  "queue_refresh p force needs_reauth s =
     (if \<not> needs_reauth
      then
        (let (now, s1) = time_time s
         in if in_backoff p now s1 then s1
            else enqueue_tracked p force needs_reauth s1)
      else enqueue_tracked p force needs_reauth s)"

section \<open>Saving\<close>

text \<open>
  \<^verbatim>\<open>_save_credentials\<close>. For a credential loaded from the environment only the cache
  changes. Otherwise the file is replaced through a temporary file and the cache follows;
  when the directory or the file cannot be written the exception is raised again after the
  temporary file is removed, and neither the file nor the cache changes.
\<close>

definition write_file :: "path \<Rightarrow> creds \<Rightarrow> state \<Rightarrow> unit outcome \<times> state" where
  "write_file p c s =
     (if p \<in> unwritable s then (Raises OSError, s)
      else (Returns (), s\<lparr>files := (files s)(p \<mapsto> Json c),
                            credentials_cache := (credentials_cache s)(p \<mapsto> c)\<rparr>))"

definition save_credentials :: "path \<Rightarrow> creds \<Rightarrow> state \<Rightarrow> unit outcome \<times> state" where
  "save_credentials p c s =
     (case proxy_metadata c of
        Absent \<Rightarrow> write_file p c s
      | Null \<Rightarrow> (Raises AttributeError, s)
      | Val m \<Rightarrow>
          if loaded_from_env m
          then (Returns (), s\<lparr>credentials_cache := (credentials_cache s)(p \<mapsto> c)\<rparr>)
          else write_file p c s)"

section \<open>Sequencing, exceptions and locks\<close>

definition then_do ::
  "'a outcome \<times> state \<Rightarrow> ('a \<Rightarrow> state \<Rightarrow> 'b outcome \<times> state) \<Rightarrow> 'b outcome \<times> state" where
  "then_do r k =
     (case r of
        (Returns x, s) \<Rightarrow> k x s
      | (Raises e, s) \<Rightarrow> (Raises e, s)
      | (Blocks, s) \<Rightarrow> (Blocks, s)
      | (OutOfFuel, s) \<Rightarrow> (OutOfFuel, s))"

text \<open>\<^verbatim>\<open>try: ... except Exception as e: ...\<close>\<close>

definition on_exception ::
  "'a outcome \<times> state \<Rightarrow> (exn \<Rightarrow> state \<Rightarrow> 'a outcome \<times> state) \<Rightarrow> 'a outcome \<times> state" where
  "on_exception r h = (case r of (Raises e, s) \<Rightarrow> h e s | other \<Rightarrow> other)"

text \<open>
  \<^verbatim>\<open>async with await self._get_lock(path): ...\<close>. A held lock is never acquired; the
  lock is released when the block returns or raises.
\<close>

definition release :: "path \<Rightarrow> state \<Rightarrow> state" where
  "release p s = s\<lparr>refresh_locks := refresh_locks s - {p}\<rparr>"

definition with_lock :: "path \<Rightarrow> (state \<Rightarrow> 'a outcome \<times> state) \<Rightarrow> state \<Rightarrow> 'a outcome \<times> state" where
  "with_lock p body s =
     (if p \<in> refresh_locks s then (Blocks, s)
      else
        (case body (s\<lparr>refresh_locks := insert p (refresh_locks s)\<rparr>) of
           (Returns x, s') \<Rightarrow> (Returns x, release p s')
         | (Raises e, s') \<Rightarrow> (Raises e, release p s')
         | (Blocks, s') \<Rightarrow> (Blocks, s')
         | (OutOfFuel, s') \<Rightarrow> (OutOfFuel, s')))"

section \<open>Loading credentials\<close>

definition startswith :: "string \<Rightarrow> string \<Rightarrow> bool" where
  "startswith s pre = (take (length pre) s = pre)"

text \<open>\<^verbatim>\<open>s.split(c)\<close> for a separator of one character.\<close>

fun split_char :: "char \<Rightarrow> string \<Rightarrow> string list" where
  "split_char c [] = [ [] ]"
| "split_char c (x # xs) =
     (if x = c then [] # split_char c xs
      else (case split_char c xs of [] \<Rightarrow> [ [x] ] | w # ws \<Rightarrow> (x # w) # ws))"

definition parse_env_credential_path :: "path \<Rightarrow> string option" where
  "parse_env_credential_path p =
     (if \<not> startswith p ''env://'' then None
      else
        (let parts = split_char CHR ''/'' (drop 6 p)
         in if length parts \<ge> 2 then Some (parts ! 1) else Some ''0''))"

definition getenv_default :: "state \<Rightarrow> string \<Rightarrow> string \<Rightarrow> string" where
  "getenv_default s name dflt = (case environ s name of None \<Rightarrow> dflt | Some v \<Rightarrow> v)"

definition env_field :: "state \<Rightarrow> string \<Rightarrow> string field" where
  "env_field s name = (case environ s name of None \<Rightarrow> Null | Some v \<Rightarrow> Val v)"

text \<open>
  \<^verbatim>\<open>_load_from_env\<close>. The expiry is \<^verbatim>\<open>float\<close> of the variable, 0 when the variable is
  missing (the default string is "0") or when \<^verbatim>\<open>float\<close> raises ValueError.
\<close>

definition load_from_env :: "string option \<Rightarrow> state \<Rightarrow> creds option \<times> state" where
  "load_from_env credential_index s =
     (let numbered = (case credential_index of
                        None \<Rightarrow> False
                      | Some i \<Rightarrow> i \<noteq> [] \<and> i \<noteq> ''0'');
          ix = (case credential_index of None \<Rightarrow> [] | Some i \<Rightarrow> i);
          pfx = (if numbered then ''QWEN_CODE_'' @ ix else ''QWEN_CODE'');
          default_email = (if numbered then ''env-user-'' @ ix else ''env-user'');
          access = env_field s (pfx @ ''_ACCESS_TOKEN'');
          refresh = env_field s (pfx @ ''_REFRESH_TOKEN'')
      in if \<not> (truthy access \<and> truthy refresh) then (None, s)
         else
           (let expiry = (case environ s (pfx @ ''_EXPIRY_DATE'') of
                            None \<Rightarrow> 0
                          | Some str \<Rightarrow> (case float_of s str of None \<Rightarrow> 0 | Some x \<Rightarrow> x));
                url = getenv_default s (pfx @ ''_RESOURCE_URL'') DEFAULT_BASE_URL;
                mail = getenv_default s (pfx @ ''_EMAIL'') default_email;
                (now, s1) = time_time s
            in (Some \<lparr>access_token = access, refresh_token = refresh,
                       expiry_date = Val expiry, resource_url = Val url,
                       proxy_metadata = Val \<lparr>email = Val mail,
                         last_check_timestamp = Val now, loaded_from_env = True,
                         env_credential_index = Val (if ix = [] then ''0'' else ix),
                         display_name = Absent\<rparr>,
                       extras = []\<rparr>, s1)))"

definition put_cache :: "path \<Rightarrow> creds \<Rightarrow> state \<Rightarrow> state" where
  "put_cache p c s = s\<lparr>credentials_cache := (credentials_cache s)(p \<mapsto> c)\<rparr>"

definition read_creds_from_file :: "path \<Rightarrow> state \<Rightarrow> creds outcome \<times> state" where
  "read_creds_from_file p s =
     (case files s p of
        None \<Rightarrow> (Raises IOError, s)
      | Some Garbage \<Rightarrow> (Raises IOError, s)
      | Some (Json c) \<Rightarrow> (Returns c, put_cache p c s))"

definition load_uncached :: "path \<Rightarrow> state \<Rightarrow> creds outcome \<times> state" where
  "load_uncached p s =
     (case credentials_cache s p of
        Some c \<Rightarrow> (Returns c, s)
      | None \<Rightarrow>
          (case parse_env_credential_path p of
             Some credential_index \<Rightarrow>
               (case load_from_env (Some credential_index) s of
                  (Some c, s1) \<Rightarrow> (Returns c, put_cache p c s1)
                | (None, s1) \<Rightarrow> (Raises IOError, s1))
           | None \<Rightarrow>
               (case load_from_env None s of
                  (Some c, s1) \<Rightarrow> (Returns c, put_cache p c s1)
                | (None, s1) \<Rightarrow> read_creds_from_file p s1)))"

definition load_credentials :: "path \<Rightarrow> state \<Rightarrow> creds outcome \<times> state" where
  "load_credentials p s =
     (case credentials_cache s p of
        Some c \<Rightarrow> (Returns c, s)
      | None \<Rightarrow> with_lock p (load_uncached p) s)"

text \<open>
  \<^verbatim>\<open>_is_token_expired\<close>: the division is evaluated before the clock is read, and fails
  on \<^verbatim>\<open>None\<close>.
\<close>

definition is_token_expired :: "creds \<Rightarrow> state \<Rightarrow> bool outcome \<times> state" where
  "is_token_expired c s =
     (case expiry_date c of
        Null \<Rightarrow> (Raises TypeError, s)
      | Absent \<Rightarrow>
          (let (now, s1) = time_time s
           in (Returns (0 / 1000 < now + REFRESH_EXPIRY_BUFFER_SECONDS), s1))
      | Val e \<Rightarrow>
          (let (now, s1) = time_time s
           in (Returns (e / 1000 < now + REFRESH_EXPIRY_BUFFER_SECONDS), s1)))"

section \<open>Refreshing a token\<close>

definition max_retries :: nat where
  "max_retries = 3"

text \<open>
  How the retry loop of \<^verbatim>\<open>_refresh_token\<close> is left: by \<^verbatim>\<open>break\<close> or by running out
  of attempts, with the values of \<^verbatim>\<open>new_token_data\<close> and \<^verbatim>\<open>needs_reauth\<close>; or by an
  exception that leaves the function. The second component of the result of
  \<open>retry_loop\<close> is \<^verbatim>\<open>last_error\<close>. The sleeps between attempts only let time pass.
\<close>

datatype loop_exit = LoopDone "token_data option" bool | LoopRaises exn

function retry_loop :: "nat \<Rightarrow> exn option \<Rightarrow> state \<Rightarrow> loop_exit \<times> exn option \<times> state" where
  "retry_loop attempt last_error s =
     (if attempt \<ge> max_retries then (LoopDone None False, last_error, s)
      else
        (let s1 = s\<lparr>posts := Suc (posts s)\<rparr>
         in case token_endpoint s (posts s) of
              Response new_token_data \<Rightarrow> (LoopDone new_token_data False, last_error, s1)
            | StatusError status_code header \<Rightarrow>
                (let e = HTTPStatusError status_code
                 in if status_code = 401 \<or> status_code = 403
                    then (LoopDone None True, Some e, s1)
                    else if status_code = 429
                    then (if header = RetryMalformed then (LoopRaises ValueError, Some e, s1)
                          else if attempt < max_retries - 1
                          then retry_loop (Suc attempt) (Some e) s1
                          else (LoopRaises e, Some e, s1))
                    else if 500 \<le> status_code \<and> status_code < 600
                    then (if attempt < max_retries - 1
                          then retry_loop (Suc attempt) (Some e) s1
                          else (LoopRaises e, Some e, s1))
                    else (LoopRaises e, Some e, s1))
            | NetworkError \<Rightarrow>
                (if attempt < max_retries - 1
                 then retry_loop (Suc attempt) (Some RequestError) s1
                 else (LoopRaises RequestError, Some RequestError, s1))))"
  by pat_completeness auto
termination
  by (relation "measure (\<lambda>(attempt, last_error, s). max_retries - attempt)") auto

text \<open>The two blocks marked BACKOFF TRACKING: count the failure, set the timer.\<close>

definition backoff_seconds :: "nat \<Rightarrow> nat" where
  "backoff_seconds failures = min 300 (30 * 2 ^ failures)"

definition record_failure :: "path \<Rightarrow> state \<Rightarrow> state" where
  "record_failure p s =
     (let failures = (case refresh_failures s p of None \<Rightarrow> 0 | Some n \<Rightarrow> n) + 1;
          s1 = s\<lparr>refresh_failures := (refresh_failures s)(p \<mapsto> failures)\<rparr>;
          (now, s2) = time_time s1
      in s2\<lparr>next_refresh_after :=
               (next_refresh_after s2)(p \<mapsto> now + real (backoff_seconds failures))\<rparr>)"

definition clear_failures :: "path \<Rightarrow> state \<Rightarrow> state" where
  "clear_failures p s =
     s\<lparr>refresh_failures := (refresh_failures s)(p := None),
       next_refresh_after := (next_refresh_after s)(p := None)\<rparr>"

text \<open>
  The tail of \<^verbatim>\<open>_refresh_token\<close>, from the first assignment to
  \<^verbatim>\<open>creds_from_file\<close> on. \<^verbatim>\<open>creds_from_file\<close> is the dictionary stored in the cache, so
  every assignment is an update of the cache entry, also when a later line raises.
\<close>

definition store_refreshed :: "path \<Rightarrow> token_data \<Rightarrow> state \<Rightarrow> creds outcome \<times> state" where
  "store_refreshed p new_token_data s =
     (case credentials_cache s p of
        None \<Rightarrow> (Raises KeyError, s)
      | Some c \<Rightarrow>
          if td_access_token new_token_data = Absent then (Raises KeyError, s)
          else if refresh_token c = Absent then
            (Raises KeyError, put_cache p (c\<lparr>access_token := td_access_token new_token_data\<rparr>) s)
          else
            (let c2 = c\<lparr>access_token := td_access_token new_token_data,
                        refresh_token := (case td_refresh_token new_token_data of
                                            Absent \<Rightarrow> refresh_token c | v \<Rightarrow> v)\<rparr>;
                 (now, s1) = time_time s
             in case td_expires_in new_token_data of
                  Absent \<Rightarrow> (Raises KeyError, put_cache p c2 s1)
                | Null \<Rightarrow> (Raises TypeError, put_cache p c2 s1)
                | Val expires_in \<Rightarrow>
                    (let c4 = c2\<lparr>expiry_date := Val ((now + expires_in) * 1000),
                                 resource_url := (case td_resource_url new_token_data of
                                     Absent \<Rightarrow> (case resource_url c of Absent \<Rightarrow> Null | v \<Rightarrow> v)
                                   | v \<Rightarrow> v)\<rparr>;
                         (stamp, s2) = time_time s1
                     in case (case proxy_metadata c4 of
                                Absent \<Rightarrow> Val empty_metadata | v \<Rightarrow> v) of
                          Absent \<Rightarrow> (Raises TypeError, put_cache p c4 s2)
                        | Null \<Rightarrow> (Raises TypeError, put_cache p c4 s2)
                        | Val m \<Rightarrow>
                            (let c5 = c4\<lparr>proxy_metadata :=
                                           Val (m\<lparr>last_check_timestamp := Val stamp\<rparr>)\<rparr>;
                                 s3 = put_cache p c5 s2
                             in if \<not> truthy (access_token c5) \<or> \<not> truthy (refresh_token c5)
                                then (Raises ValueError, s3)
                                else then_do (save_credentials p c5 (clear_failures p s3))
                                       (\<lambda>_ s4. (Returns c5, s4))))))"

text \<open>
  The dictionary those assignments build when none of them raises, from the cached
  credentials, the token data and the two clock readings.
\<close>

definition refreshed :: "creds \<Rightarrow> token_data \<Rightarrow> real \<Rightarrow> real \<Rightarrow> real \<Rightarrow> creds" where
  "refreshed c d now expires_in stamp =
     c\<lparr>access_token := td_access_token d,
       refresh_token := (case td_refresh_token d of Absent \<Rightarrow> refresh_token c | v \<Rightarrow> v),
       expiry_date := Val ((now + expires_in) * 1000),
       resource_url := (case td_resource_url d of
                          Absent \<Rightarrow> (case resource_url c of Absent \<Rightarrow> Null | v \<Rightarrow> v)
                        | v \<Rightarrow> v),
       proxy_metadata := Val ((case proxy_metadata c of Val m \<Rightarrow> m | _ \<Rightarrow> empty_metadata)
                               \<lparr>last_check_timestamp := Val stamp\<rparr>)\<rparr>"

text \<open>
  \<^verbatim>\<open>_refresh_token\<close> under the per-credential lock, in four parts. First the
  early return: the cached credentials, when the call is not forced and they are there
  and not expired (the clock is read only then).
\<close>

definition cached_if_fresh :: "path \<Rightarrow> bool \<Rightarrow> state \<Rightarrow> creds option outcome \<times> state" where
  "cached_if_fresh p force s =
     (case credentials_cache s p of
        Some cached_creds \<Rightarrow>
          if \<not> force \<and> cached_creds \<noteq> empty_creds
          then then_do (is_token_expired cached_creds s)
                 (\<lambda>expired s1. (Returns (if expired then None else Some cached_creds), s1))
          else (Returns None, s)
      | None \<Rightarrow> (Returns None, s))"

text \<open>Then \<^verbatim>\<open>creds_from_file\<close>: the cache entry, read from the file when there is none.\<close>

definition cached_or_file :: "path \<Rightarrow> state \<Rightarrow> creds outcome \<times> state" where
  "cached_or_file p s =
     (case credentials_cache s p of
        None \<Rightarrow> read_creds_from_file p s
      | Some c \<Rightarrow> (Returns c, s))"

text \<open>
  Then what follows the retry loop, given how the loop was left. The first argument stands
  for \<^verbatim>\<open>self.initialize_token\<close>.
\<close>

definition after_retries ::
  "(path \<Rightarrow> state \<Rightarrow> creds outcome \<times> state) \<Rightarrow> path \<Rightarrow> loop_exit \<times> exn option \<times> state
     \<Rightarrow> creds outcome \<times> state" where
  "after_retries initialize p r =
     (case r of
        (LoopRaises e, last_error, s3) \<Rightarrow> (Raises e, s3)
      | (LoopDone new_token_data True, last_error, s3) \<Rightarrow>
          (case initialize p s3 of
             (Returns new_creds, s4) \<Rightarrow> (Returns new_creds, clear_failures p s4)
           | (Raises reauth_error, s4) \<Rightarrow> (Raises ValueError, record_failure p s4)
           | (Blocks, s4) \<Rightarrow> (Blocks, s4)
           | (OutOfFuel, s4) \<Rightarrow> (OutOfFuel, s4))
      | (LoopDone None False, last_error, s3) \<Rightarrow>
          (Raises (case last_error of None \<Rightarrow> PlainException | Some e \<Rightarrow> e),
           record_failure p s3)
      | (LoopDone (Some new_token_data) False, last_error, s3) \<Rightarrow>
          store_refreshed p new_token_data s3)"

definition refresh_locked ::
  "(path \<Rightarrow> state \<Rightarrow> creds outcome \<times> state) \<Rightarrow> path \<Rightarrow> bool \<Rightarrow> state
     \<Rightarrow> creds outcome \<times> state" where
  "refresh_locked initialize p force s =
     then_do (cached_if_fresh p force s)
       (\<lambda>fresh s1.
          case fresh of
            Some cached_creds \<Rightarrow> (Returns cached_creds, s1)
          | None \<Rightarrow>
              then_do (cached_or_file p s1)
                (\<lambda>creds_from_file s2.
                   if \<not> truthy (refresh_token creds_from_file) then (Raises ValueError, s2)
                   else after_retries initialize p (retry_loop 0 None s2)))"

section \<open>Interactive re-authentication and initialisation\<close>

definition is_space :: "char \<Rightarrow> bool" where
  "is_space c = (c \<in> set [CHR '' '', CHR 0x09, CHR 0x0A, CHR 0x0B, CHR 0x0C, CHR 0x0D,
                            CHR 0x1C, CHR 0x1D, CHR 0x1E, CHR 0x1F])"

definition strip :: "string \<Rightarrow> string" where
  "strip x = rev (dropWhile is_space (rev (dropWhile is_space x)))"

text \<open>
  \<^verbatim>\<open>_perform_interactive_oauth\<close>, from the end of the polling loop on. The dictionary
  it updates is the one \<^verbatim>\<open>initialize_token\<close> got from \<^verbatim>\<open>_load_credentials\<close>, which is
  the cache entry of the path, and nothing replaces that entry in between; so the update is
  an update of the cache entry. The dictionary literal is evaluated before the update.
\<close>

definition perform_interactive_oauth :: "path \<Rightarrow> state \<Rightarrow> creds outcome \<times> state" where
  "perform_interactive_oauth p s =
     (let s0 = s\<lparr>flows := Suc (flows s)\<rparr>
      in case device_flow s (flows s) of
           FlowFails e \<Rightarrow> (Raises e, s0)
         | FlowTokens token_data answer \<Rightarrow>
             (case credentials_cache s0 p of
                None \<Rightarrow> (Raises KeyError, s0)
              | Some c \<Rightarrow>
                  if td_access_token token_data = Absent then (Raises KeyError, s0)
                  else
                    (let (now, s1) = time_time s0
                     in case td_expires_in token_data of
                          Absent \<Rightarrow> (Raises KeyError, s1)
                        | Null \<Rightarrow> (Raises TypeError, s1)
                        | Val expires_in \<Rightarrow>
                            (let c1 = c\<lparr>access_token := td_access_token token_data,
                                        refresh_token := (case td_refresh_token token_data of
                                                            Absent \<Rightarrow> Null | v \<Rightarrow> v),
                                        expiry_date := Val ((now + expires_in) * 1000),
                                        resource_url := (case td_resource_url token_data of
                                                           Absent \<Rightarrow> Null | v \<Rightarrow> v)\<rparr>;
                                 s2 = put_cache p c1 s1
                             in case proxy_metadata c1 of
                                  Null \<Rightarrow> (Raises AttributeError, s2)
                                | meta \<Rightarrow>
                                    (let (c2, s3) =
                                       (if truthy (case meta of Val m \<Rightarrow> email m | _ \<Rightarrow> Null)
                                        then (c1, s2)
                                        else
                                          (let (stamp, s') = time_time s2
                                           in (c1\<lparr>proxy_metadata := Val (empty_metadata
                                                   \<lparr>email := (case answer of
                                                                 None \<Rightarrow> Null
                                                               | Some a \<Rightarrow> Val (strip a)),
                                                    last_check_timestamp := Val stamp\<rparr>)\<rparr>, s')))
                                     in then_do (save_credentials p c2 (put_cache p c2 s3))
                                          (\<lambda>_ s4. (Returns c2, s4)))))))"

text \<open>
  \<^verbatim>\<open>ReauthCoordinator.execute_reauth\<close> with no other caller around: it takes the global
  lock, finds no task in flight, runs the function as a task, removes the task and frees
  the lock; what the function returns or raises passes through. The coordinator under
  several callers is the subject of the last section.
\<close>

definition execute_reauth :: "(state \<Rightarrow> 'a outcome \<times> state) \<Rightarrow> state \<Rightarrow> 'a outcome \<times> state" where
  "execute_reauth reauth_func s = reauth_func s"

text \<open>
  The body of \<^verbatim>\<open>initialize_token\<close> called with a path (a string), as every caller in
  the repository does. The first argument stands for \<^verbatim>\<open>self._refresh_token\<close>. With the
  empty string the source takes the string itself for the credentials and fails on
  \<^verbatim>\<open>creds.get\<close>.
\<close>

definition initialize_body ::
  "(path \<Rightarrow> state \<Rightarrow> creds outcome \<times> state) \<Rightarrow> path \<Rightarrow> state \<Rightarrow> creds outcome \<times> state" where
  "initialize_body refresh p s =
     on_exception
       (if p = [] then (Raises AttributeError, s)
        else
          then_do (load_credentials p s)
            (\<lambda>c s1.
               if \<not> truthy (refresh_token c)
               then execute_reauth (perform_interactive_oauth p) s1
               else
                 then_do (is_token_expired c s1)
                   (\<lambda>expired s2.
                      if expired
                      then (case refresh p s2 of
                              (Raises e, s3) \<Rightarrow> execute_reauth (perform_interactive_oauth p) s3
                            | other \<Rightarrow> other)
                      else (Returns c, s2))))
       (\<lambda>e s'. (Raises ValueError, s'))"

text \<open>
  \<^verbatim>\<open>_refresh_token\<close> and \<^verbatim>\<open>initialize_token\<close> call each other. The first argument
  bounds the depth of the calls. \<open>run_refresh_token\<close> is the method
  \<^verbatim>\<open>_refresh_token\<close> (the plain name is the field of the credentials). The bounds chosen
  for it and for \<open>initialize_token\<close> are never reached
  (\<open>refresh_token_never_out_of_fuel\<close>, \<open>initialize_token_never_out_of_fuel\<close>), and a
  larger bound gives the same result (\<open>refresh_fuel_enough\<close>,
  \<open>initialize_fuel_enough\<close>): a call made while the lock is held stops at the lock.
\<close>

fun refresh_token_fuel :: "nat \<Rightarrow> path \<Rightarrow> bool \<Rightarrow> state \<Rightarrow> creds outcome \<times> state"
  and initialize_token_fuel :: "nat \<Rightarrow> path \<Rightarrow> state \<Rightarrow> creds outcome \<times> state" where
  "refresh_token_fuel 0 = (\<lambda>p force s. (OutOfFuel, s))"
| "refresh_token_fuel (Suc n) =
     (\<lambda>p force. with_lock p (refresh_locked (initialize_token_fuel n) p force))"
| "initialize_token_fuel 0 = (\<lambda>p s. (OutOfFuel, s))"
| "initialize_token_fuel (Suc n) =
     (\<lambda>p. initialize_body (\<lambda>q. refresh_token_fuel n q False) p)"

definition run_refresh_token :: "path \<Rightarrow> bool \<Rightarrow> state \<Rightarrow> creds outcome \<times> state" where
  "run_refresh_token = refresh_token_fuel 3"

definition initialize_token :: "path \<Rightarrow> state \<Rightarrow> creds outcome \<times> state" where
  "initialize_token = initialize_token_fuel 4"

section \<open>Using a credential\<close>

text \<open>
  \<^verbatim>\<open>get_api_details\<close>: the base URL and the access token; \<^verbatim>\<open>os.path.isfile\<close> holds of
  the paths the file system has a file for.
\<close>

definition get_api_details :: "string \<Rightarrow> state \<Rightarrow> (string \<times> string field) outcome \<times> state" where
  "get_api_details credential_identifier s =
     (if files s credential_identifier \<noteq> None
      then
        then_do (load_credentials credential_identifier s)
          (\<lambda>c s1.
             then_do (is_token_expired c s1)
               (\<lambda>expired s2.
                  then_do (if expired then run_refresh_token credential_identifier False s2
                           else (Returns c, s2))
                    (\<lambda>c' s3.
                       case resource_url c' of
                         Null \<Rightarrow> (Raises AttributeError, s3)
                       | url \<Rightarrow>
                           (let u = (case url of Val v \<Rightarrow> v | _ \<Rightarrow> DEFAULT_BASE_URL);
                                base_url = (if startswith u ''http'' then u else ''https://'' @ u)
                            in if access_token c' = Absent then (Raises KeyError, s3)
                               else (Returns (base_url, access_token c'), s3)))))
      else (Returns (DEFAULT_BASE_URL, Val credential_identifier), s))"

definition proactively_refresh :: "string \<Rightarrow> state \<Rightarrow> unit outcome \<times> state" where
  "proactively_refresh credential_identifier s =
     (case load_credentials credential_identifier s of
        (Raises IOError, s1) \<Rightarrow> (Returns (), s1)
      | (Returns c, s1) \<Rightarrow>
          then_do (is_token_expired c s1)
            (\<lambda>is_expired s2.
               (Returns (),
                if is_expired then queue_refresh credential_identifier False False s2 else s2))
      | (Raises e, s1) \<Rightarrow> (Raises e, s1)
      | (Blocks, s1) \<Rightarrow> (Blocks, s1)
      | (OutOfFuel, s1) \<Rightarrow> (OutOfFuel, s1))"

section \<open>The worker of the refresh queue\<close>

definition mark_available :: "path \<Rightarrow> state \<Rightarrow> state" where
  "mark_available p s = s\<lparr>unavailable_credentials := (unavailable_credentials s)(p := None)\<rparr>"

text \<open>
  The block of \<^verbatim>\<open>_process_refresh_queue\<close> under the per-credential lock: \<open>True\<close>
  when the refresh was skipped (\<^verbatim>\<open>continue\<close>), \<open>False\<close> when it was made.
\<close>

definition worker_item :: "path \<Rightarrow> bool \<Rightarrow> state \<Rightarrow> bool outcome \<times> state" where
  "worker_item p force s =
     then_do
       (case credentials_cache s p of
          None \<Rightarrow> (Returns False, s)
        | Some c \<Rightarrow>
            if c \<noteq> empty_creds
            then then_do (is_token_expired c s) (\<lambda>expired s1. (Returns (\<not> expired), s1))
            else (Returns False, s))
       (\<lambda>still_fresh s1.
          if still_fresh then (Returns True, mark_available p s1)
          else
            then_do (if dict_truthy (credentials_cache s1 p) then (Returns (), s1)
                     else then_do (load_credentials p s1) (\<lambda>_ s'. (Returns (), s')))
              (\<lambda>_ s2.
                 then_do (run_refresh_token p force s2)
                   (\<lambda>_ s3. (Returns False, mark_available p s3))))"

definition finally_cleanup :: "path \<Rightarrow> state \<Rightarrow> state" where
  "finally_cleanup p s =
     s\<lparr>queued_credentials := queued_credentials s - {p},
       unavailable_credentials := (unavailable_credentials s)(p := None)\<rparr>"

definition error_cleanup :: "path \<Rightarrow> state \<Rightarrow> state" where
  "error_cleanup p s = (if p \<noteq> [] then mark_available p s else s)"

text \<open>
  One turn of the \<^verbatim>\<open>while True\<close> loop of \<^verbatim>\<open>_process_refresh_queue\<close>: with an empty
  queue, the idle timeout after which the worker returns; otherwise one item, after which
  the loop goes on, also when the item raised.
\<close>

datatype worker_turn = Continue | Exited

definition process_refresh_queue_turn :: "state \<Rightarrow> worker_turn outcome \<times> state" where
  "process_refresh_queue_turn s =
     (case refresh_queue s of
        [] \<Rightarrow>
          (Returns Exited,
           s\<lparr>unavailable_credentials := Map.empty, queued_credentials := {},
             queue_processor_task := False\<rparr>)
      | (p, force, needs_reauth) # rest \<Rightarrow>
          (case with_lock p (worker_item p force) (s\<lparr>refresh_queue := rest\<rparr>) of
             (Returns skipped, s1) \<Rightarrow> (Returns Continue, finally_cleanup p s1)
           | (Raises e, s1) \<Rightarrow> (Returns Continue, error_cleanup p (finally_cleanup p s1))
           | (Blocks, s1) \<Rightarrow> (Blocks, s1)
           | (OutOfFuel, s1) \<Rightarrow> (OutOfFuel, s1)))"

section \<open>Discovery of API keys\<close>

text \<open>
  The string operations of Python that discovery uses, for a non-empty pattern:
  \<^verbatim>\<open>old in s\<close>, \<^verbatim>\<open>s.replace(old, new)\<close>, \<^verbatim>\<open>s.split(old)[0]\<close> and \<^verbatim>\<open>s.lower()\<close> (on
  ASCII letters).
\<close>

fun contains :: "string \<Rightarrow> string \<Rightarrow> bool" where
  "contains old [] = (old = [])"
| "contains old (x # xs) = (startswith (x # xs) old \<or> contains old xs)"

function replace_str :: "string \<Rightarrow> string \<Rightarrow> string \<Rightarrow> string" where
  "replace_str old new [] = []"
| "replace_str old new (x # xs) =
     (if old \<noteq> [] \<and> startswith (x # xs) old
      then new @ replace_str old new (drop (length old) (x # xs))
      else x # replace_str old new xs)"
  by pat_completeness auto
termination
  by (relation "measure (\<lambda>(old, new, s). length s)") auto

fun before_first :: "string \<Rightarrow> string \<Rightarrow> string" where
  "before_first old [] = []"
| "before_first old (x # xs) =
     (if old \<noteq> [] \<and> startswith (x # xs) old then [] else x # before_first old xs)"

definition lower_char :: "char \<Rightarrow> char" where
  "lower_char c =
     (case map_of (zip ''ABCDEFGHIJKLMNOPQRSTUVWXYZ'' ''abcdefghijklmnopqrstuvwxyz'') c of
        None \<Rightarrow> c
      | Some l \<Rightarrow> l)"

definition lower :: "string \<Rightarrow> string" where
  "lower s = map lower_char s"

text \<open>
  A dictionary from provider names to lists, in insertion order:
  \<^verbatim>\<open>if provider not in d: d[provider] = []\<close> followed by
  \<^verbatim>\<open>d[provider].append(v)\<close>.
\<close>

fun append_to :: "string \<Rightarrow> string \<Rightarrow> (string \<times> string list) list \<Rightarrow> (string \<times> string list) list" where
  "append_to provider v [] = [(provider, [v])]"
| "append_to provider v ((k, vs) # rest) =
     (if k = provider then (k, vs @ [v]) # rest else (k, vs) # append_to provider v rest)"

text \<open>
  \<^verbatim>\<open>CredentialManager._discover_api_keys\<close> of \<^verbatim>\<open>credential_manager.py\<close>, over the
  items of the environment in their order; the accumulator is the dictionary built so far.
\<close>

fun discover_api_keys ::
  "(string \<times> string) list \<Rightarrow> (string \<times> string list) list \<Rightarrow> (string \<times> string list) list" where
  "discover_api_keys [] credentials = credentials"
| "discover_api_keys ((key, v) # rest) credentials =
     (if contains ''_API_KEY'' key \<and> key \<noteq> ''PROXY_API_KEY''
      then discover_api_keys rest
             (append_to (lower (replace_str ''_API_KEY'' [] key)) (''env://'' @ key) credentials)
      else discover_api_keys rest credentials)"

text \<open>The loop of \<^verbatim>\<open>proxy_app/main.py\<close> that fills \<^verbatim>\<open>api_keys\<close>.\<close>

fun main_api_keys ::
  "(string \<times> string) list \<Rightarrow> (string \<times> string list) list \<Rightarrow> (string \<times> string list) list" where
  "main_api_keys [] api_keys = api_keys"
| "main_api_keys ((key, v) # rest) api_keys =
     (if contains ''_API_KEY'' key \<and> key \<noteq> ''PROXY_API_KEY''
      then main_api_keys rest (append_to (lower (before_first ''_API_KEY'' key)) v api_keys)
      else main_api_keys rest api_keys)"

section \<open>The re-authentication coordinator under several callers\<close>

text \<open>
  \<^verbatim>\<open>ReauthCoordinator.execute_reauth\<close> is a coroutine; between two \<^verbatim>\<open>await\<close>s its code
  runs without interruption. A caller is therefore at one of the places below: not yet
  called, waiting for \<^verbatim>\<open>_active_reauth_lock\<close>, holding the lock while awaiting a task of
  somebody else (the branch "already in progress"), holding the lock while awaiting the
  task it created, or done.
\<close>

datatype reauth_result = Completed | Failed exn

datatype task_state = Running | Done reauth_result | Cancelled

datatype place =
    NotCalled
  | WaitingForLock string
  | Joined string nat
  | Awaiting string nat
  | Finished reauth_result

record coordinator =
  active_reauth_lock :: bool
  active_reauth_tasks :: "string \<rightharpoonup> nat"
  tasks :: "nat \<rightharpoonup> task_state"
  created :: nat
  callers :: "nat \<Rightarrow> place"

definition new_coordinator :: coordinator where
  "new_coordinator = \<lparr>active_reauth_lock = False, active_reauth_tasks = Map.empty,
     tasks = Map.empty, created = 0, callers = (\<lambda>_. NotCalled)\<rparr>"

text \<open>
  What can happen next: a caller enters \<^verbatim>\<open>execute_reauth\<close> with its \<^verbatim>\<open>reauth_id\<close>; a
  waiting caller gets the lock; a running task ends (the flow returns or raises, its own
  \<^verbatim>\<open>wait_for\<close> included); a caller's \<^verbatim>\<open>wait_for\<close> sees its task done; a caller's
  \<^verbatim>\<open>wait_for\<close> times out.
\<close>

datatype event =
    Call nat string
  | Acquire nat
  | TaskEnds nat reauth_result
  | Resume nat
  | Timeout nat

text \<open>The code between the acquisition of the lock and the next \<^verbatim>\<open>await\<close>.\<close>

definition create_task :: "nat \<Rightarrow> string \<Rightarrow> coordinator \<Rightarrow> coordinator" where
  "create_task c reauth_id k =
     k\<lparr>tasks := (tasks k)(created k \<mapsto> Running),
       active_reauth_tasks := (active_reauth_tasks k)(reauth_id \<mapsto> created k),
       created := Suc (created k),
       callers := (callers k)(c := Awaiting reauth_id (created k))\<rparr>"

definition in_flight :: "coordinator \<Rightarrow> string \<Rightarrow> nat option" where
  "in_flight k reauth_id =
     (case active_reauth_tasks k reauth_id of
        None \<Rightarrow> None
      | Some t \<Rightarrow> if tasks k t = Some Running then Some t else None)"

definition leave :: "nat \<Rightarrow> string \<Rightarrow> reauth_result \<Rightarrow> coordinator \<Rightarrow> coordinator" where
  "leave c reauth_id r k =
     k\<lparr>active_reauth_tasks := (active_reauth_tasks k)(reauth_id := None),
       active_reauth_lock := False,
       callers := (callers k)(c := Finished r)\<rparr>"

text \<open>An event that cannot happen in a state leaves the state as it is.\<close>

fun coordinator_step :: "event \<Rightarrow> coordinator \<Rightarrow> coordinator" where
  "coordinator_step (Call c reauth_id) k =
     (if callers k c = NotCalled
      then k\<lparr>callers := (callers k)(c := WaitingForLock reauth_id)\<rparr> else k)"
| "coordinator_step (Acquire c) k =
     (case callers k c of
        WaitingForLock reauth_id \<Rightarrow>
          if active_reauth_lock k then k
          else
            (let k1 = k\<lparr>active_reauth_lock := True\<rparr>
             in case in_flight k1 reauth_id of
                  Some t \<Rightarrow> k1\<lparr>callers := (callers k1)(c := Joined reauth_id t)\<rparr>
                | None \<Rightarrow> create_task c reauth_id k1)
      | _ \<Rightarrow> k)"
| "coordinator_step (TaskEnds t r) k =
     (if tasks k t = Some Running then k\<lparr>tasks := (tasks k)(t \<mapsto> Done r)\<rparr> else k)"
| "coordinator_step (Resume c) k =
     (case callers k c of
        Awaiting reauth_id t \<Rightarrow>
          (case tasks k t of
             Some (Done r) \<Rightarrow> leave c reauth_id r k
           | _ \<Rightarrow> k)
      | Joined reauth_id t \<Rightarrow>
          (case tasks k t of
             Some (Done (Failed TimeoutError)) \<Rightarrow> create_task c reauth_id k
           | Some (Done r) \<Rightarrow>
               k\<lparr>active_reauth_lock := False, callers := (callers k)(c := Finished r)\<rparr>
           | _ \<Rightarrow> k)
      | _ \<Rightarrow> k)"
| "coordinator_step (Timeout c) k =
     (case callers k c of
        Awaiting reauth_id t \<Rightarrow>
          if tasks k t = Some Running
          then leave c reauth_id (Failed TimeoutError) (k\<lparr>tasks := (tasks k)(t \<mapsto> Cancelled)\<rparr>)
          else k
      | Joined reauth_id t \<Rightarrow>
          if tasks k t = Some Running
          then create_task c reauth_id (k\<lparr>tasks := (tasks k)(t \<mapsto> Cancelled)\<rparr>)
          else k
      | _ \<Rightarrow> k)"

fun run_events :: "event list \<Rightarrow> coordinator \<Rightarrow> coordinator" where
  "run_events [] k = k"
| "run_events (e # es) k = run_events es (coordinator_step e k)"

definition flows_active :: "coordinator \<Rightarrow> nat set" where
  "flows_active k = {t. tasks k t = Some Running}"

text \<open>
  What holds of the coordinator whatever happens: nobody is in the branch "already in
  progress"; at most one caller awaits a task of its own, and it holds the lock; every
  running task and every registered task is the one that caller awaits.
\<close>

definition coordinator_inv :: "coordinator \<Rightarrow> bool" where
  "coordinator_inv k =
     ((\<forall>c r t. callers k c \<noteq> Joined r t) \<and>
      (\<forall>c c' r r' t t'. callers k c = Awaiting r t \<and> callers k c' = Awaiting r' t' \<longrightarrow> c = c') \<and>
      (\<forall>c r t. callers k c = Awaiting r t \<longrightarrow> active_reauth_lock k) \<and>
      (\<forall>t. tasks k t = Some Running \<longrightarrow> (\<exists>c r. callers k c = Awaiting r t)) \<and>
      (\<forall>r t. active_reauth_tasks k r = Some t \<longrightarrow> (\<exists>c. callers k c = Awaiting r t)))"

section \<open>The two tracking collections\<close>

text \<open>
  What the methods of the class keep true of \<^verbatim>\<open>_queued_credentials\<close> and
  \<^verbatim>\<open>_unavailable_credentials\<close>: an unavailable credential is a queued one.
\<close>

definition tracked_inv :: "state \<Rightarrow> bool" where
  "tracked_inv s = (dom (unavailable_credentials s) \<subseteq> queued_credentials s)"

text \<open>The two collections as one value, to say that a method leaves both as they are.\<close>

definition tracking :: "state \<Rightarrow> path set \<times> (path \<rightharpoonup> real)" where
  "tracking s = (queued_credentials s, unavailable_credentials s)"

section \<open>A world to run the definitions in\<close>

definition stored_creds :: creds where
  "stored_creds = \<lparr>access_token = Val ''old-access'', refresh_token = Val ''old-refresh'',
     expiry_date = Val 5000000, resource_url = Absent, proxy_metadata = Absent, extras = []\<rparr>"

definition short_lived_tokens :: token_data where
  "short_lived_tokens = \<lparr>td_access_token = Val ''new-access'', td_refresh_token = Absent,
     td_expires_in = Val 60, td_resource_url = Absent\<rparr>"

text \<open>A token endpoint that answers 503 to the first request and token data from then on.\<close>

definition answered_second :: "token_data \<Rightarrow> nat \<Rightarrow> http_result" where
  "answered_second d n = (if n = 0 then StatusError 503 RetryAbsent else Response (Some d))"

definition empty_access_tokens :: token_data where
  "empty_access_tokens = \<lparr>td_access_token = Val [], td_refresh_token = Val ''new-refresh'',
     td_expires_in = Val 3600, td_resource_url = Absent\<rparr>"

definition quiet_world :: state where
  "quiet_world = \<lparr>credentials_cache = Map.empty, refresh_locks = {},
     refresh_failures = Map.empty, next_refresh_after = Map.empty, refresh_queue = [],
     queued_credentials = {}, unavailable_credentials = Map.empty,
     unavailable_ttl_seconds = 300, queue_processor_task = False,
     files = Map.empty, unwritable = {}, environ = Map.empty, float_of = (\<lambda>_. None),
     clock = (\<lambda>n. 1000 + real n), ticks = 0,
     token_endpoint = (\<lambda>_. NetworkError), posts = 0,
     device_flow = (\<lambda>_. FlowFails TimeoutError), flows = 0\<rparr>"

section \<open>Availability, admission, saving and API keys\<close>

text \<open>
  C4. A credential that is not in the unavailable dictionary is available and the call
  changes nothing. A credential marked unavailable at time \<open>t\<close> is available again as soon
  as \<^verbatim>\<open>is_credential_available\<close> reads a clock value \<open>now\<close> with \<open>now - t\<close> above the TTL:
  the call answers true and removes the entry (and nothing else changes but the clock
  having been read). The TTL set by \<^verbatim>\<open>__init__\<close> is 300 seconds, and no credential is
  unavailable then.
\<close>

theorem is_available_ttl_reaping:
  "(unavailable_credentials s p = None \<longrightarrow> is_credential_available p s = (True, s)) \<and>
   (\<forall>t. unavailable_credentials s p = Some t \<and>
        clock s (ticks s) - t > real_of_int (unavailable_ttl_seconds s) \<longrightarrow>
        is_credential_available p s =
          (True, s\<lparr>ticks := Suc (ticks s),
                   unavailable_credentials := (unavailable_credentials s)(p := None)\<rparr>)) \<and>
   unavailable_ttl_seconds (init_state w) = 300 \<and>
   unavailable_credentials (init_state w) p = None"
  by (simp add: is_credential_available_def time_time_def init_state_def)

theorem is_available_ttl_reaping_witness:
  "is_credential_available ''a.json''
     (quiet_world\<lparr>unavailable_credentials := [''a.json'' \<mapsto> 600], ticks := 1\<rparr>) =
   (True, quiet_world\<lparr>unavailable_credentials := Map.empty, ticks := 2\<rparr>)
   \<and> is_credential_available ''b.json''
     (quiet_world\<lparr>unavailable_credentials := [''a.json'' \<mapsto> 600], ticks := 1\<rparr>) =
   (True, quiet_world\<lparr>unavailable_credentials := [''a.json'' \<mapsto> 600], ticks := 1\<rparr>)"
  using
    is_available_ttl_reaping
      [of "quiet_world\<lparr>unavailable_credentials := [''a.json'' \<mapsto> 600], ticks := 1\<rparr>"
          "''a.json''"]
    is_available_ttl_reaping
      [of "quiet_world\<lparr>unavailable_credentials := [''a.json'' \<mapsto> 600], ticks := 1\<rparr>"
          "''b.json''"]
  by (simp add: quiet_world_def)

text \<open>
  \<^verbatim>\<open>_queue_refresh\<close> in any state whatever. When \<open>needs_reauth\<close> is false and the clock
  read by the call is before the credential's backoff timer, nothing changes (but the clock
  having been read). Otherwise the test the code makes is on the queued set: a credential in
  it is left alone, any other is added to the queue, to the queued set and to the
  unavailable dictionary with the time then read.
\<close>

lemma queue_refresh_cases:
  "(\<not> needs_reauth \<and> in_backoff p (clock s (ticks s)) s \<longrightarrow>
      queue_refresh p force needs_reauth s = s\<lparr>ticks := Suc (ticks s)\<rparr>) \<and>
   (\<not> (\<not> needs_reauth \<and> in_backoff p (clock s (ticks s)) s) \<and> p \<in> queued_credentials s \<longrightarrow>
      queue_refresh p force needs_reauth s =
        (if needs_reauth then s else s\<lparr>ticks := Suc (ticks s)\<rparr>)) \<and>
   (\<not> (\<not> needs_reauth \<and> in_backoff p (clock s (ticks s)) s) \<and> p \<notin> queued_credentials s \<longrightarrow>
      queue_refresh p force needs_reauth s =
        s\<lparr>queued_credentials := insert p (queued_credentials s),
          ticks := (if needs_reauth then Suc (ticks s) else Suc (Suc (ticks s))),
          unavailable_credentials :=
            (unavailable_credentials s)
              (p \<mapsto> clock s (if needs_reauth then ticks s else Suc (ticks s))),
          refresh_queue := refresh_queue s @ [(p, force, needs_reauth)],
          queue_processor_task := True\<rparr>)"
  by (simp add: queue_refresh_def enqueue_tracked_def time_time_def in_backoff_def Let_def)

text \<open>
  C9. Saving credentials whose metadata say \<^verbatim>\<open>loaded_from_env\<close> returns normally, leaves
  every file as it is, and stores the credentials in the cache under the path.
\<close>

theorem save_env_credential_cache_only:
  assumes "proxy_metadata c = Val m" and "loaded_from_env m"
  shows "save_credentials p c s =
           (Returns (), s\<lparr>credentials_cache := (credentials_cache s)(p \<mapsto> c)\<rparr>) \<and>
         files (snd (save_credentials p c s)) = files s \<and>
         credentials_cache (snd (save_credentials p c s)) p = Some c"
  using assms by (simp add: save_credentials_def)

theorem save_env_credential_cache_only_witness:
  "save_credentials ''env://qwen_code/1''
     (stored_creds\<lparr>proxy_metadata := Val (empty_metadata\<lparr>loaded_from_env := True\<rparr>)\<rparr>)
     (quiet_world\<lparr>files := [''other.json'' \<mapsto> Garbage]\<rparr>) =
   (Returns (),
    quiet_world\<lparr>files := [''other.json'' \<mapsto> Garbage],
      credentials_cache := [''env://qwen_code/1'' \<mapsto>
        stored_creds\<lparr>proxy_metadata := Val (empty_metadata\<lparr>loaded_from_env := True\<rparr>)\<rparr>]\<rparr>)"
  using save_env_credential_cache_only
    [of "stored_creds\<lparr>proxy_metadata := Val (empty_metadata\<lparr>loaded_from_env := True\<rparr>)\<rparr>"
        "empty_metadata\<lparr>loaded_from_env := True\<rparr>" "''env://qwen_code/1''"
        "quiet_world\<lparr>files := [''other.json'' \<mapsto> Garbage]\<rparr>"]
  by (simp add: quiet_world_def empty_metadata_def)

text \<open>
  C10. For an identifier that is not the path of a file, \<^verbatim>\<open>get_api_details\<close> returns:
  the default base URL and the identifier itself as the access token, and nothing changes.
\<close>

theorem api_key_details:
  "files s credential_identifier = None \<Longrightarrow>
     get_api_details credential_identifier s =
       (Returns (''https://portal.qwen.ai/v1'', Val credential_identifier), s)"
  by (simp add: get_api_details_def DEFAULT_BASE_URL_def)

theorem api_key_details_witness:
  "get_api_details ''sk-123'' (quiet_world\<lparr>files := [''a.json'' \<mapsto> Json stored_creds]\<rparr>) =
     (Returns (''https://portal.qwen.ai/v1'', Val ''sk-123''),
      quiet_world\<lparr>files := [''a.json'' \<mapsto> Json stored_creds]\<rparr>)
   \<and> get_api_details ''a.json''
       (quiet_world\<lparr>files := ([''a.json'' \<mapsto> Json stored_creds])(''a.json'' := None),
          credentials_cache := [''a.json'' \<mapsto> stored_creds]\<rparr>) =
     (Returns (''https://portal.qwen.ai/v1'', Val ''a.json''),
      quiet_world\<lparr>files := ([''a.json'' \<mapsto> Json stored_creds])(''a.json'' := None),
          credentials_cache := [''a.json'' \<mapsto> stored_creds]\<rparr>)"
  using
    api_key_details [of "quiet_world\<lparr>files := [''a.json'' \<mapsto> Json stored_creds]\<rparr>" "''sk-123''"]
    api_key_details
      [of "quiet_world\<lparr>files := ([''a.json'' \<mapsto> Json stored_creds])(''a.json'' := None),
             credentials_cache := [''a.json'' \<mapsto> stored_creds]\<rparr>" "''a.json''"]
  by (simp add: quiet_world_def)

section \<open>Locks and the depth of the calls\<close>

declare retry_loop.simps [simp del]

lemma with_lock_held: "p \<in> refresh_locks s \<Longrightarrow> with_lock p body s = (Blocks, s)"
  by (simp add: with_lock_def)

lemma refresh_token_fuel_held:
  "p \<in> refresh_locks s \<Longrightarrow> refresh_token_fuel (Suc n) p force s = (Blocks, s)"
  by (simp add: with_lock_held)

lemma load_credentials_cached:
  "credentials_cache s p = Some c \<Longrightarrow> load_credentials p s = (Returns c, s)"
  by (simp add: load_credentials_def)

lemma load_credentials_held:
  "credentials_cache s p = None \<Longrightarrow> p \<in> refresh_locks s \<Longrightarrow> load_credentials p s = (Blocks, s)"
  by (simp add: load_credentials_def with_lock_held)

lemma is_token_expired_cases:
  "is_token_expired c s = (Raises TypeError, s) \<or>
   (\<exists>b. is_token_expired c s = (Returns b, s\<lparr>ticks := Suc (ticks s)\<rparr>))"
  by (cases "expiry_date c") (simp_all add: is_token_expired_def time_time_def)

lemma retry_loop_frame:
  "retry_loop attempt last_error s = (x, le, s') \<Longrightarrow> s' = s\<lparr>posts := posts s'\<rparr>"
proof (induction attempt last_error s arbitrary: x le s' rule: retry_loop.induct)
  case (1 attempt last_error s)
  show ?case
  proof (cases "attempt \<ge> max_retries")
    case True
    with "1.prems" show ?thesis by (simp add: retry_loop.simps [of attempt last_error s])
  next
    case False
    show ?thesis
    proof (cases "token_endpoint s (posts s)")
      case (Response d)
      with False "1.prems" show ?thesis
        by (auto simp add: retry_loop.simps [of attempt last_error s] Let_def)
    next
      case (StatusError code h)
      with False "1.prems" "1.IH"(1,2) [OF False refl StatusError refl] show ?thesis
        by (auto simp add: retry_loop.simps [of attempt last_error s] Let_def split: if_splits)
    next
      case NetworkError
      with False "1.prems" "1.IH"(3) [OF False refl NetworkError] show ?thesis
        by (auto simp add: retry_loop.simps [of attempt last_error s] Let_def split: if_splits)
    qed
  qed
qed

lemma retry_loop_posts_only:
  "retry_loop attempt last_error s = (x, le, s') \<Longrightarrow> \<exists>n. s' = s\<lparr>posts := n\<rparr>"
  using retry_loop_frame by blast

text \<open>
  The loop reads the answers of the token endpoint and counts the requests, and nothing
  else: in two states with the same endpoint and the same count it is left the same way.
  A loop that starts below the bound makes at least one request.
\<close>

lemma retry_loop_cong:
  "retry_loop a le s = (x, le', s') \<Longrightarrow> token_endpoint s2 = token_endpoint s \<Longrightarrow>
     posts s2 = posts s \<Longrightarrow> retry_loop a le s2 = (x, le', s2\<lparr>posts := posts s'\<rparr>)"
proof (induction a le s arbitrary: x le' s' s2 rule: retry_loop.induct)
  case (1 attempt last_error s)
  note u1 = retry_loop.simps [of attempt last_error s]
  note u2 = retry_loop.simps [of attempt last_error s2]
  show ?case
  proof (cases "attempt \<ge> max_retries")
    case True
    from True have "retry_loop attempt last_error s2 = (LoopDone None False, last_error, s2)"
      by (simp add: u2)
    moreover from True "1.prems"(1) have "x = LoopDone None False" "le' = last_error" "s' = s"
      by (simp_all add: u1)
    ultimately show ?thesis using "1.prems"(3) by simp
  next
    case False
    let ?s1 = "s\<lparr>posts := Suc (posts s)\<rparr>"
    let ?t1 = "s2\<lparr>posts := Suc (posts s2)\<rparr>"
    have e: "token_endpoint ?t1 = token_endpoint ?s1" "posts ?t1 = posts ?s1"
      using "1.prems" by simp_all
    have t: "token_endpoint s2 (posts s2) = token_endpoint s (posts s)"
      using "1.prems" by simp
    have p: "?t1\<lparr>posts := n\<rparr> = s2\<lparr>posts := n\<rparr>" for n by simp
    show ?thesis
    proof (cases "token_endpoint s (posts s)")
      case (Response d)
      with False "1.prems"(1) have "x = LoopDone d False" "le' = last_error" "s' = ?s1"
        by (simp_all add: u1 Let_def)
      moreover from False Response t
      have "retry_loop attempt last_error s2 = (LoopDone d False, last_error, ?t1)"
        by (simp add: u2 Let_def)
      ultimately show ?thesis using "1.prems"(3) by simp
    next
      case (StatusError code h)
      show ?thesis
      proof (cases "(code = 429 \<and> h \<noteq> RetryMalformed \<or> code \<noteq> 401 \<and> code \<noteq> 403 \<and> code \<noteq> 429 \<and> 500 \<le> code \<and> code < 600)
                      \<and> attempt < max_retries - 1")
        case True
        then have r1: "retry_loop attempt last_error s =
                     retry_loop (Suc attempt) (Some (HTTPStatusError code)) ?s1"
          using False StatusError by (auto simp add: u1 Let_def)
        from True have r2: "retry_loop attempt last_error s2 =
                     retry_loop (Suc attempt) (Some (HTTPStatusError code)) ?t1"
          using False StatusError t by (auto simp add: u2 Let_def)
        from r1 "1.prems"(1)
        have q: "retry_loop (Suc attempt) (Some (HTTPStatusError code)) ?s1 = (x, le', s')"
          by simp
        from True have "retry_loop (Suc attempt) (Some (HTTPStatusError code)) ?t1 =
                          (x, le', ?t1\<lparr>posts := posts s'\<rparr>)"
        proof (elim conjE disjE)
          assume a: "code = 429" "h \<noteq> RetryMalformed" "attempt < max_retries - 1"
          have c: "\<not> (code = 401 \<or> code = 403)" using a by simp
          show ?thesis
            by (rule "1.IH"(1) [OF False refl StatusError refl c a(1) a(2) a(3) q e])
        next
          assume a: "code \<noteq> 401" "code \<noteq> 403" "code \<noteq> 429" "500 \<le> code" "code < 600"
            "attempt < max_retries - 1"
          have c: "\<not> (code = 401 \<or> code = 403)" using a by simp
          have d: "500 \<le> code \<and> code < 600" using a by simp
          show ?thesis
            by (rule "1.IH"(2) [OF False refl StatusError refl c a(3) d a(6) q e])
        qed
        with r2 show ?thesis by (simp add: p)
      next
        case F2: False
        have "\<exists>y l. retry_loop attempt last_error s = (y, l, ?s1) \<and>
                    retry_loop attempt last_error s2 = (y, l, ?t1)"
          using False StatusError t F2 by (auto simp add: u1 u2 Let_def)
        with "1.prems"(1,3) show ?thesis by auto
      qed
    next
      case NetworkError
      show ?thesis
      proof (cases "attempt < max_retries - 1")
        case True
        then have r1: "retry_loop attempt last_error s =
                     retry_loop (Suc attempt) (Some RequestError) ?s1"
          using False NetworkError by (auto simp add: u1 Let_def)
        from True have r2: "retry_loop attempt last_error s2 =
                     retry_loop (Suc attempt) (Some RequestError) ?t1"
          using False NetworkError t by (auto simp add: u2 Let_def)
        from r1 "1.prems"(1)
        have q: "retry_loop (Suc attempt) (Some RequestError) ?s1 = (x, le', s')" by simp
        have "retry_loop (Suc attempt) (Some RequestError) ?t1 =
                          (x, le', ?t1\<lparr>posts := posts s'\<rparr>)"
          by (rule "1.IH"(3) [OF False refl NetworkError True q e])
        with r2 show ?thesis by (simp add: p)
      next
        case F2: False
        have "\<exists>y l. retry_loop attempt last_error s = (y, l, ?s1) \<and>
                    retry_loop attempt last_error s2 = (y, l, ?t1)"
          using False NetworkError t F2 by (auto simp add: u1 u2 Let_def)
        with "1.prems"(1,3) show ?thesis by auto
      qed
    qed
  qed
qed


lemma retry_loop_posts_grow:
  "retry_loop a le s = (x, le', s') \<Longrightarrow> a < max_retries \<Longrightarrow> posts s < posts s'"
proof (induction a le s arbitrary: x le' s' rule: retry_loop.induct)
  case (1 attempt last_error s)
  note u1 = retry_loop.simps [of attempt last_error s]
  have False: "\<not> attempt \<ge> max_retries" using "1.prems"(2) by simp
  have sa: "attempt < max_retries - 1 \<Longrightarrow> Suc attempt < max_retries" by simp
  show ?case
  proof (cases "token_endpoint s (posts s)")
    case (Response d)
    with False "1.prems"(1) show ?thesis by (auto simp add: u1 Let_def)
  next
    case (StatusError code h)
    with False "1.prems"(1) "1.IH"(1,2) [OF False refl StatusError refl] sa
    show ?thesis
      by (auto simp add: u1 Let_def split: if_splits)
  next
    case NetworkError
    with False "1.prems"(1) "1.IH"(3) [OF False refl NetworkError] sa
    show ?thesis
      by (auto simp add: u1 Let_def split: if_splits)
  qed
qed


lemma initialize_body_cong_held:
  assumes "p \<in> refresh_locks s"
    and "\<And>s'. p \<in> refresh_locks s' \<Longrightarrow> r1 p s' = r2 p s'"
  shows "initialize_body r1 p s = initialize_body r2 p s"
proof (cases "credentials_cache s p")
  case None
  with assms(1) show ?thesis
    by (simp add: initialize_body_def load_credentials_held then_do_def)
next
  case (Some c)
  have eq: "r1 p (s\<lparr>ticks := Suc (ticks s)\<rparr>) = r2 p (s\<lparr>ticks := Suc (ticks s)\<rparr>)"
    using assms by simp
  from is_token_expired_cases [of c s] show ?thesis
  proof
    assume "is_token_expired c s = (Raises TypeError, s)"
    with Some show ?thesis
      by (simp add: initialize_body_def load_credentials_cached then_do_def)
  next
    assume "\<exists>b. is_token_expired c s = (Returns b, s\<lparr>ticks := Suc (ticks s)\<rparr>)"
    then obtain b where "is_token_expired c s = (Returns b, s\<lparr>ticks := Suc (ticks s)\<rparr>)" ..
    with Some eq show ?thesis
      by (simp add: initialize_body_def load_credentials_cached then_do_def)
  qed
qed

lemma initialize_fuel_held:
  assumes h: "p \<in> refresh_locks s"
  shows "initialize_token_fuel (Suc (Suc n)) p s = initialize_token_fuel (Suc (Suc 0)) p s"
proof -
  have "initialize_body (\<lambda>q. refresh_token_fuel (Suc n) q False) p s =
        initialize_body (\<lambda>q. refresh_token_fuel (Suc 0) q False) p s"
    by (rule initialize_body_cong_held [OF h]) (simp add: with_lock_held)
  then show ?thesis by simp
qed

lemma then_do_cong:
  "(\<And>x s'. r = (Returns x, s') \<Longrightarrow> k1 x s' = k2 x s') \<Longrightarrow> then_do r k1 = then_do r k2"
  by (cases r; cases "fst r") (auto simp add: then_do_def)

lemma cached_if_fresh_locks:
  "cached_if_fresh p force s = (Returns x, s') \<Longrightarrow> refresh_locks s' = refresh_locks s"
  using is_token_expired_cases [of "the (credentials_cache s p)" s]
  by (cases "credentials_cache s p")
     (auto simp add: cached_if_fresh_def then_do_def split: if_splits)

lemma cached_or_file_locks:
  "cached_or_file p s = (Returns c, s') \<Longrightarrow> refresh_locks s' = refresh_locks s"
  by (auto simp add: cached_or_file_def read_creds_from_file_def put_cache_def
      split: option.splits file_content.splits)

lemma retry_loop_locks:
  "retry_loop attempt last_error s = (x, le, s') \<Longrightarrow> refresh_locks s' = refresh_locks s"
proof -
  assume "retry_loop attempt last_error s = (x, le, s')"
  then obtain n where "s' = s\<lparr>posts := n\<rparr>" using retry_loop_posts_only by blast
  then show ?thesis by simp
qed

lemma after_retries_cong_held:
  assumes "p \<in> refresh_locks s"
    and "\<And>s'. p \<in> refresh_locks s' \<Longrightarrow> i1 p s' = i2 p s'"
  shows "after_retries i1 p (retry_loop 0 None s) = after_retries i2 p (retry_loop 0 None s)"
proof -
  obtain x le s3 where r: "retry_loop 0 None s = (x, le, s3)"
    by (cases "retry_loop 0 None s") auto
  from retry_loop_locks [OF r] assms have "i1 p s3 = i2 p s3" by simp
  then have "after_retries i1 p (x, le, s3) = after_retries i2 p (x, le, s3)"
    by (cases x) (auto simp add: after_retries_def split: option.splits bool.splits)
  with r show ?thesis by simp
qed

lemma refresh_locked_cong_held:
  assumes "p \<in> refresh_locks s"
    and "\<And>s'. p \<in> refresh_locks s' \<Longrightarrow> i1 p s' = i2 p s'"
  shows "refresh_locked i1 p force s = refresh_locked i2 p force s"
  unfolding refresh_locked_def
proof (rule then_do_cong)
  fix fresh s1
  assume a: "cached_if_fresh p force s = (Returns fresh, s1)"
  have l1: "p \<in> refresh_locks s1" using cached_if_fresh_locks [OF a] assms(1) by simp
  show "(case fresh of
           None \<Rightarrow> then_do (cached_or_file p s1)
                    (\<lambda>creds_from_file s2.
                       if \<not> truthy (refresh_token creds_from_file) then (Raises ValueError, s2)
                       else after_retries i1 p (retry_loop 0 None s2))
         | Some cached_creds \<Rightarrow> (Returns cached_creds, s1)) =
        (case fresh of
           None \<Rightarrow> then_do (cached_or_file p s1)
                    (\<lambda>creds_from_file s2.
                       if \<not> truthy (refresh_token creds_from_file) then (Raises ValueError, s2)
                       else after_retries i2 p (retry_loop 0 None s2))
         | Some cached_creds \<Rightarrow> (Returns cached_creds, s1))"
  proof (cases fresh)
    case None
    have "then_do (cached_or_file p s1)
            (\<lambda>creds_from_file s2.
               if \<not> truthy (refresh_token creds_from_file) then (Raises ValueError, s2)
               else after_retries i1 p (retry_loop 0 None s2)) =
          then_do (cached_or_file p s1)
            (\<lambda>creds_from_file s2.
               if \<not> truthy (refresh_token creds_from_file) then (Raises ValueError, s2)
               else after_retries i2 p (retry_loop 0 None s2))"
    proof (rule then_do_cong)
      fix c s2
      assume b: "cached_or_file p s1 = (Returns c, s2)"
      have l2: "p \<in> refresh_locks s2" using cached_or_file_locks [OF b] l1 by simp
      have "after_retries i1 p (retry_loop 0 None s2) = after_retries i2 p (retry_loop 0 None s2)"
      proof (rule after_retries_cong_held)
        show "p \<in> refresh_locks s2" by (rule l2)
      next
        fix s' :: state
        assume "p \<in> refresh_locks s'"
        then show "i1 p s' = i2 p s'" by (rule assms(2))
      qed
      then show "(if \<not> truthy (refresh_token c) then (Raises ValueError, s2)
             else after_retries i1 p (retry_loop 0 None s2)) =
            (if \<not> truthy (refresh_token c) then (Raises ValueError, s2)
             else after_retries i2 p (retry_loop 0 None s2))"
        by simp
    qed
    with None show ?thesis by simp
  next
    case (Some c)
    then show ?thesis by simp
  qed
qed

lemma refresh_fuel_enough:
  "refresh_token_fuel (Suc (Suc (Suc n))) p force s = run_refresh_token p force s"
proof (cases "p \<in> refresh_locks s")
  case True
  then show ?thesis by (simp add: run_refresh_token_def numeral_3_eq_3 with_lock_held)
next
  case False
  have "refresh_locked (initialize_token_fuel (Suc (Suc n))) p force
          (s\<lparr>refresh_locks := insert p (refresh_locks s)\<rparr>) =
        refresh_locked (initialize_token_fuel (Suc (Suc 0))) p force
          (s\<lparr>refresh_locks := insert p (refresh_locks s)\<rparr>)"
  proof (rule refresh_locked_cong_held)
    show "p \<in> refresh_locks (s\<lparr>refresh_locks := insert p (refresh_locks s)\<rparr>)" by simp
  next
    fix s' :: state
    assume "p \<in> refresh_locks s'"
    then show "initialize_token_fuel (Suc (Suc n)) p s' = initialize_token_fuel (Suc (Suc 0)) p s'"
      by (rule initialize_fuel_held)
  qed
  with False show ?thesis
    by (simp add: run_refresh_token_def numeral_3_eq_3 with_lock_def)
qed

lemma initialize_fuel_enough:
  "initialize_token_fuel (Suc (Suc (Suc (Suc n)))) p s = initialize_token p s"
proof -
  have "(\<lambda>q. refresh_token_fuel (Suc (Suc (Suc n))) q False) =
        (\<lambda>q. refresh_token_fuel (Suc (Suc (Suc 0))) q False)"
    by (intro ext) (simp only: refresh_fuel_enough [of n] refresh_fuel_enough [of 0])
  then show ?thesis
    by (simp add: initialize_token_def eval_nat_numeral)
qed

section \<open>Refresh failures and the backoff counters\<close>

lemma cached_if_fresh_stale:
  assumes "credentials_cache s p = Some c"
    and "force \<or> (\<exists>e. expiry_date c = Val e \<and>
            e / 1000 < clock s (ticks s) + REFRESH_EXPIRY_BUFFER_SECONDS)"
    and "truthy (refresh_token c)"
  shows "cached_if_fresh p force s =
           (Returns None, if force then s else s\<lparr>ticks := Suc (ticks s)\<rparr>)"
proof -
  have "c \<noteq> empty_creds" using assms(3) by (auto simp add: empty_creds_def truthy_def)
  with assms show ?thesis
    by (auto simp add: cached_if_fresh_def is_token_expired_def time_time_def then_do_def)
qed

lemma retry_loop_5xx_again:
  assumes "attempt < 2" "token_endpoint s (posts s) = StatusError c h" "500 \<le> c" "c < 600"
  shows "retry_loop attempt le s =
           retry_loop (Suc attempt) (Some (HTTPStatusError c)) (s\<lparr>posts := Suc (posts s)\<rparr>)"
  using assms by (subst retry_loop.simps) (simp add: max_retries_def Let_def)

lemma retry_loop_5xx_last:
  assumes "token_endpoint s (posts s) = StatusError c h" "500 \<le> c" "c < 600"
  shows "retry_loop (Suc (Suc 0)) le s =
           (LoopRaises (HTTPStatusError c), Some (HTTPStatusError c),
            s\<lparr>posts := Suc (posts s)\<rparr>)"
  using assms by (subst retry_loop.simps) (simp add: max_retries_def Let_def)

lemma retry_loop_server_errors:
  assumes "token_endpoint s (posts s) = StatusError c1 h1" "500 \<le> c1" "c1 < 600"
    and "token_endpoint s (Suc (posts s)) = StatusError c2 h2" "500 \<le> c2" "c2 < 600"
    and "token_endpoint s (Suc (Suc (posts s))) = StatusError c3 h3" "500 \<le> c3" "c3 < 600"
  shows "retry_loop 0 None s =
           (LoopRaises (HTTPStatusError c3), Some (HTTPStatusError c3),
            s\<lparr>posts := Suc (Suc (Suc (posts s)))\<rparr>)"
proof -
  have "retry_loop 0 None s =
        retry_loop (Suc 0) (Some (HTTPStatusError c1)) (s\<lparr>posts := Suc (posts s)\<rparr>)"
    using assms(1-3) by (intro retry_loop_5xx_again) simp_all
  also have "\<dots> = retry_loop (Suc (Suc 0)) (Some (HTTPStatusError c2))
                      (s\<lparr>posts := Suc (Suc (posts s))\<rparr>)"
    using assms(4-6) retry_loop_5xx_again [of "Suc 0" "s\<lparr>posts := Suc (posts s)\<rparr>" c2 h2]
    by simp
  also have "\<dots> = (LoopRaises (HTTPStatusError c3), Some (HTTPStatusError c3),
                      s\<lparr>posts := Suc (Suc (Suc (posts s)))\<rparr>)"
    using assms(7-9) retry_loop_5xx_last [of "s\<lparr>posts := Suc (Suc (posts s))\<rparr>" c3 h3]
    by simp
  finally show ?thesis .
qed

lemma run_refresh_token_unlocked:
  "p \<notin> refresh_locks s \<Longrightarrow>
     run_refresh_token p force s =
       (case refresh_locked (initialize_token_fuel 2) p force
               (s\<lparr>refresh_locks := insert p (refresh_locks s)\<rparr>) of
          (Returns x, s') \<Rightarrow> (Returns x, release p s')
        | (Raises e, s') \<Rightarrow> (Raises e, release p s')
        | (Blocks, s') \<Rightarrow> (Blocks, s')
        | (OutOfFuel, s') \<Rightarrow> (OutOfFuel, s'))"
  by (simp add: run_refresh_token_def numeral_3_eq_3 numeral_2_eq_2 with_lock_def
      del: initialize_token_fuel.simps)

lemma refresh_locked_stale:
  assumes "credentials_cache s p = Some c"
    and "force \<or> (\<exists>e. expiry_date c = Val e \<and>
            e / 1000 < clock s (ticks s) + REFRESH_EXPIRY_BUFFER_SECONDS)"
    and "truthy (refresh_token c)"
  shows "refresh_locked i p force s =
           after_retries i p
             (retry_loop 0 None (if force then s else s\<lparr>ticks := Suc (ticks s)\<rparr>))"
  using assms(1,3)
  by (simp add: refresh_locked_def cached_if_fresh_stale [OF assms] then_do_def
      cached_or_file_def)

text \<open>
  C1 fails on the code where the retry loop gives up. Take a credential whose lock is
  free, with a refresh token, refreshed by force or because it is about to expire, and a
  token endpoint that answers three times with a 5xx status. The third answer is raised
  again from inside the loop, so the block that counts the failure and sets the timer is
  never reached: the call raises, and apart from the requests made and the clock read the
  state is as before, \<^verbatim>\<open>_refresh_failures\<close> and \<^verbatim>\<open>_next_refresh_after\<close> included.
\<close>

theorem refresh_server_errors_not_counted:
  assumes "p \<notin> refresh_locks s"
    and "credentials_cache s p = Some c"
    and "truthy (refresh_token c)"
    and "force \<or> (\<exists>e. expiry_date c = Val e \<and>
            e / 1000 < clock s (ticks s) + REFRESH_EXPIRY_BUFFER_SECONDS)"
    and "token_endpoint s (posts s) = StatusError c1 h1" "500 \<le> c1" "c1 < 600"
    and "token_endpoint s (Suc (posts s)) = StatusError c2 h2" "500 \<le> c2" "c2 < 600"
    and "token_endpoint s (Suc (Suc (posts s))) = StatusError c3 h3" "500 \<le> c3" "c3 < 600"
  shows "run_refresh_token p force s =
           (Raises (HTTPStatusError c3),
            s\<lparr>posts := Suc (Suc (Suc (posts s))),
              ticks := (if force then ticks s else Suc (ticks s))\<rparr>)"
proof -
  let ?s1 = "s\<lparr>refresh_locks := insert p (refresh_locks s)\<rparr>"
  let ?s2 = "if force then ?s1 else ?s1\<lparr>ticks := Suc (ticks ?s1)\<rparr>"
  have a: "refresh_locked (initialize_token_fuel 2) p force ?s1 =
           after_retries (initialize_token_fuel 2) p (retry_loop 0 None ?s2)"
    using assms(2,3,4) by (intro refresh_locked_stale [of ?s1 p c force]) simp_all
  have b: "retry_loop 0 None ?s2 =
           (LoopRaises (HTTPStatusError c3), Some (HTTPStatusError c3),
            ?s2\<lparr>posts := Suc (Suc (Suc (posts ?s2)))\<rparr>)"
    using assms(5-13) by (intro retry_loop_server_errors [of ?s2 c1 h1 c2 h2 c3 h3]) simp_all
  show ?thesis
    using assms(1)
    by (simp add: run_refresh_token_unlocked [OF assms(1)] a b after_retries_def release_def)
qed

theorem refresh_server_errors_not_counted_witness:
  "run_refresh_token ''a.json'' True
     (quiet_world\<lparr>credentials_cache := [''a.json'' \<mapsto> stored_creds],
        token_endpoint := (\<lambda>_. StatusError 503 RetryAbsent)\<rparr>) =
   (Raises (HTTPStatusError 503),
    quiet_world\<lparr>credentials_cache := [''a.json'' \<mapsto> stored_creds],
        token_endpoint := (\<lambda>_. StatusError 503 RetryAbsent), posts := 3\<rparr>)"
  using refresh_server_errors_not_counted
    [of "''a.json''"
        "quiet_world\<lparr>credentials_cache := [''a.json'' \<mapsto> stored_creds],
           token_endpoint := (\<lambda>_. StatusError 503 RetryAbsent)\<rparr>"
        stored_creds True 503 RetryAbsent 503 RetryAbsent 503 RetryAbsent]
  by (simp add: quiet_world_def stored_creds_def truthy_def)

lemma retry_loop_response:
  "token_endpoint s (posts s) = Response d \<Longrightarrow>
     retry_loop 0 None s = (LoopDone d False, None, s\<lparr>posts := Suc (posts s)\<rparr>)"
  by (subst retry_loop.simps) (simp add: max_retries_def Let_def)

text \<open>
  What the counting block does when it is reached, and the one way to reach it without
  re-authentication: a response whose body is the JSON value null.
\<close>

lemma record_failure_effect:
  "refresh_failures (record_failure p s) p =
     Some (Suc (case refresh_failures s p of None \<Rightarrow> 0 | Some n \<Rightarrow> n)) \<and>
   next_refresh_after (record_failure p s) p =
     Some (clock s (ticks s) +
           real (min 300 (30 * 2 ^ Suc (case refresh_failures s p of None \<Rightarrow> 0 | Some n \<Rightarrow> n))))"
  by (simp add: record_failure_def time_time_def backoff_seconds_def Let_def)

lemma refresh_null_body_counted:
  assumes "p \<notin> refresh_locks s"
    and "credentials_cache s p = Some c"
    and "truthy (refresh_token c)"
    and "token_endpoint s (posts s) = Response None"
  shows "run_refresh_token p True s =
           (Raises PlainException, release p (record_failure p
              (s\<lparr>refresh_locks := insert p (refresh_locks s), posts := Suc (posts s)\<rparr>)))"
proof -
  let ?s1 = "s\<lparr>refresh_locks := insert p (refresh_locks s)\<rparr>"
  have "retry_loop 0 None ?s1 = (LoopDone None False, None, ?s1\<lparr>posts := Suc (posts ?s1)\<rparr>)"
    using assms(4) by (intro retry_loop_response) simp
  then have "refresh_locked (initialize_token_fuel 2) p True ?s1 =
        (Raises PlainException, record_failure p (?s1\<lparr>posts := Suc (posts ?s1)\<rparr>))"
    using assms(2,3) refresh_locked_stale [of ?s1 p c True "initialize_token_fuel 2"]
    by (simp add: after_retries_def)
  then show ?thesis
    by (simp add: run_refresh_token_unlocked [OF assms(1)])
qed

section \<open>Refreshes that are answered\<close>

lemma store_refreshed_value:
  assumes "credentials_cache s p = Some c"
    and "td_access_token d \<noteq> Absent"
    and "refresh_token c \<noteq> Absent"
    and "td_expires_in d = Val x"
    and "proxy_metadata c \<noteq> Null"
  shows "store_refreshed p d s =
     (let c5 = refreshed c d (clock s (ticks s)) x (clock s (Suc (ticks s)));
          s3 = put_cache p c5 (s\<lparr>ticks := Suc (Suc (ticks s))\<rparr>)
      in if \<not> truthy (access_token c5) \<or> \<not> truthy (refresh_token c5)
         then (Raises ValueError, s3)
         else then_do (save_credentials p c5 (clear_failures p s3)) (\<lambda>_ s4. (Returns c5, s4)))"
  using assms
  by (cases "proxy_metadata c")
     (simp_all add: store_refreshed_def refreshed_def time_time_def Let_def put_cache_def)

lemma ticks_posts_commute:
  "(s::state)\<lparr>ticks := a, posts := b\<rparr> = s\<lparr>posts := b, ticks := a\<rparr>"
  by (cases s) simp

lemma refresh_locked_response:
  assumes "credentials_cache s p = Some c"
    and "force \<or> (\<exists>e. expiry_date c = Val e \<and>
            e / 1000 < clock s (ticks s) + REFRESH_EXPIRY_BUFFER_SECONDS)"
    and "truthy (refresh_token c)"
    and "token_endpoint s (posts s) = Response (Some d)"
  shows "refresh_locked i p force s =
           store_refreshed p d
             (s\<lparr>posts := Suc (posts s), ticks := (if force then ticks s else Suc (ticks s))\<rparr>)"
proof -
  let ?s1 = "if force then s else s\<lparr>ticks := Suc (ticks s)\<rparr>"
  have "retry_loop 0 None ?s1 = (LoopDone (Some d) False, None, ?s1\<lparr>posts := Suc (posts ?s1)\<rparr>)"
    using assms(4) by (intro retry_loop_response) simp
  then show ?thesis
    by (simp add: refresh_locked_stale [OF assms(1-3)] after_retries_def ticks_posts_commute)
qed

lemma refresh_success:
  assumes "p \<notin> refresh_locks s"
    and "credentials_cache s p = Some c"
    and "truthy (refresh_token c)"
    and "proxy_metadata c \<noteq> Null"
    and "force \<or> (\<exists>e. expiry_date c = Val e \<and>
            e / 1000 < clock s (ticks s) + REFRESH_EXPIRY_BUFFER_SECONDS)"
    and "token_endpoint s (posts s) = Response (Some d)"
    and "td_expires_in d = Val x"
    and "truthy (td_access_token d)"
    and "td_refresh_token d = Absent \<or> truthy (td_refresh_token d)"
    and "p \<notin> unwritable s"
    and "t = (if force then ticks s else Suc (ticks s))"
  shows "\<exists>s'. run_refresh_token p force s =
                (Returns (refreshed c d (clock s t) x (clock s (Suc t))), s') \<and>
              credentials_cache s' p = Some (refreshed c d (clock s t) x (clock s (Suc t))) \<and>
              refresh_failures s' p = None \<and> next_refresh_after s' p = None"
proof -
  let ?s1 = "s\<lparr>refresh_locks := insert p (refresh_locks s)\<rparr>"
  let ?s2 = "s\<lparr>refresh_locks := insert p (refresh_locks s), posts := Suc (posts s),
               ticks := t\<rparr>"
  let ?c5 = "refreshed c d (clock s t) x (clock s (Suc t))"
  have a: "refresh_locked (initialize_token_fuel 2) p force ?s1 = store_refreshed p d ?s2"
    using assms(2,3,5,6,11) refresh_locked_response [of ?s1 p c force d] by simp
  have ra: "refresh_token c \<noteq> Absent" using assms(3) by (auto simp add: truthy_def)
  have ta: "td_access_token d \<noteq> Absent" using assms(8) by (auto simp add: truthy_def)
  have ok: "truthy (access_token ?c5) \<and> truthy (refresh_token ?c5)"
    using assms(3,8,9) by (auto simp add: refreshed_def truthy_def split: field.splits)
  have "\<exists>s4. save_credentials p ?c5
               (clear_failures p (put_cache p ?c5 (?s2\<lparr>ticks := Suc (Suc t)\<rparr>))) =
             (Returns (), s4) \<and> credentials_cache s4 p = Some ?c5 \<and>
             refresh_failures s4 p = None \<and> next_refresh_after s4 p = None"
    using assms(10)
    by (auto simp add: save_credentials_def write_file_def clear_failures_def put_cache_def
        refreshed_def split: field.splits)
  then obtain s4 where s4: "save_credentials p ?c5
               (clear_failures p (put_cache p ?c5 (?s2\<lparr>ticks := Suc (Suc t)\<rparr>))) =
             (Returns (), s4)" "credentials_cache s4 p = Some ?c5"
             "refresh_failures s4 p = None" "next_refresh_after s4 p = None" by blast
  have b: "store_refreshed p d ?s2 = (Returns ?c5, s4)"
    using ok s4(1)
    by (subst store_refreshed_value [of ?s2 p c d x])
       (use assms(2,4,7) ra ta in \<open>simp_all add: Let_def then_do_def\<close>)
  have r: "run_refresh_token p force s = (Returns ?c5, release p s4)"
    by (simp add: run_refresh_token_unlocked [OF assms(1)] a b)
  from r s4(2,3,4) show ?thesis by (simp add: release_def)
qed

text \<open>
  C6 fails on the code in its second half. Take a refresh (lock free, refresh token
  present, forced or about to expire) that the endpoint answers with token data whose
  access token is there but empty, or whose refresh token is there but empty. The call
  raises ValueError and writes no file, as the claim says. But it raises before the
  counters are touched: \<^verbatim>\<open>_refresh_failures\<close> and \<^verbatim>\<open>_next_refresh_after\<close> are what they
  were, so the rejection is not counted as a failure. (The cache entry, being the
  dictionary the assignments wrote to, already holds the rejected access token.)
\<close>

theorem refresh_rejected_not_counted:
  assumes "p \<notin> refresh_locks s"
    and "credentials_cache s p = Some c"
    and "truthy (refresh_token c)"
    and "proxy_metadata c \<noteq> Null"
    and "force \<or> (\<exists>e. expiry_date c = Val e \<and>
            e / 1000 < clock s (ticks s) + REFRESH_EXPIRY_BUFFER_SECONDS)"
    and "token_endpoint s (posts s) = Response (Some d)"
    and "td_expires_in d = Val x"
    and "td_access_token d \<noteq> Absent"
    and "\<not> truthy (td_access_token d) \<or>
         (td_refresh_token d \<noteq> Absent \<and> \<not> truthy (td_refresh_token d))"
  shows "fst (run_refresh_token p force s) = Raises ValueError \<and>
         refresh_failures (snd (run_refresh_token p force s)) = refresh_failures s \<and>
         next_refresh_after (snd (run_refresh_token p force s)) = next_refresh_after s \<and>
         files (snd (run_refresh_token p force s)) = files s \<and>
         map_option access_token (credentials_cache (snd (run_refresh_token p force s)) p) =
           Some (td_access_token d)"
proof -
  let ?s1 = "s\<lparr>refresh_locks := insert p (refresh_locks s)\<rparr>"
  let ?s2 = "s\<lparr>refresh_locks := insert p (refresh_locks s), posts := Suc (posts s),
               ticks := (if force then ticks s else Suc (ticks s))\<rparr>"
  have a: "refresh_locked (initialize_token_fuel 2) p force ?s1 = store_refreshed p d ?s2"
    using assms(2,3,5,6) refresh_locked_response [of ?s1 p c force d] by simp
  have ra: "refresh_token c \<noteq> Absent" using assms(3) by (auto simp add: truthy_def)
  have b: "store_refreshed p d ?s2 =
     (Raises ValueError,
      put_cache p (refreshed c d (clock s (ticks ?s2)) x (clock s (Suc (ticks ?s2))))
        (?s2\<lparr>ticks := Suc (Suc (ticks ?s2))\<rparr>))"
    using assms(9)
    by (subst store_refreshed_value [of ?s2 p c d x])
       (use assms(2,4,7,8) ra in \<open>auto simp add: Let_def refreshed_def truthy_def
          split: field.splits\<close>)
  show ?thesis
    by (simp add: run_refresh_token_unlocked [OF assms(1)] a b release_def put_cache_def
        refreshed_def)
qed

theorem refresh_rejected_not_counted_witness:
  "fst (run_refresh_token ''a.json'' True
     (quiet_world\<lparr>credentials_cache := [''a.json'' \<mapsto> stored_creds],
        refresh_failures := [''a.json'' \<mapsto> 1],
        token_endpoint := (\<lambda>_. Response (Some empty_access_tokens))\<rparr>)) = Raises ValueError \<and>
   refresh_failures (snd (run_refresh_token ''a.json'' True
     (quiet_world\<lparr>credentials_cache := [''a.json'' \<mapsto> stored_creds],
        refresh_failures := [''a.json'' \<mapsto> 1],
        token_endpoint := (\<lambda>_. Response (Some empty_access_tokens))\<rparr>))) ''a.json'' = Some 1 \<and>
   next_refresh_after (snd (run_refresh_token ''a.json'' True
     (quiet_world\<lparr>credentials_cache := [''a.json'' \<mapsto> stored_creds],
        refresh_failures := [''a.json'' \<mapsto> 1],
        token_endpoint := (\<lambda>_. Response (Some empty_access_tokens))\<rparr>))) ''a.json'' = None"
  using refresh_rejected_not_counted
    [of "''a.json''"
        "quiet_world\<lparr>credentials_cache := [''a.json'' \<mapsto> stored_creds],
          refresh_failures := [''a.json'' \<mapsto> 1],
          token_endpoint := (\<lambda>_. Response (Some empty_access_tokens))\<rparr>"
        stored_creds True empty_access_tokens 3600]
  by (simp add: quiet_world_def stored_creds_def empty_access_tokens_def truthy_def)

text \<open>
  A refresh that returns. When \<^verbatim>\<open>_refresh_token\<close> returns after requests were made
  and the retry loop was left with token data, the data were stored: they hold a number
  \<^verbatim>\<open>expires_in\<close>, the credentials returned are the cache entry, and their expiry is
  computed from the clock as read at that moment. That reading is the first of the call
  when the call is forced or finds no (or empty) cached credentials, and the second when the
  expiry test was made first.
\<close>

lemma saved_returns:
  assumes "then_do (save_credentials p c5 s3) (\<lambda>_ s4. (Returns c5, s4)) = (Returns c', s')"
  shows "c' = c5 \<and> credentials_cache s' p = Some c5 \<and> ticks s' = ticks s3 \<and>
         posts s' = posts s3 \<and> clock s' = clock s3 \<and> refresh_locks s' = refresh_locks s3"
  using assms
  by (auto simp add: then_do_def save_credentials_def write_file_def
      split: field.splits if_splits)

lemma store_refreshed_returns:
  assumes "store_refreshed p d s = (Returns c', s')"
  shows "\<exists>x. td_expires_in d = Val x \<and> credentials_cache s' p = Some c' \<and>
           expiry_date c' = Val ((clock s (ticks s) + x) * 1000) \<and>
           ticks s' = Suc (Suc (ticks s)) \<and> posts s' = posts s \<and> clock s' = clock s \<and>
           refresh_locks s' = refresh_locks s"
proof (cases "credentials_cache s p")
  case None
  with assms show ?thesis by (simp add: store_refreshed_def)
next
  case (Some c)
  show ?thesis
  proof (cases "td_expires_in d")
    case Absent
    with assms Some show ?thesis
      by (simp add: store_refreshed_def time_time_def split: if_splits)
  next
    case Null
    with assms Some show ?thesis
      by (simp add: store_refreshed_def time_time_def split: if_splits)
  next
    case (Val x)
    let ?c4 = "c\<lparr>access_token := td_access_token d,
                  refresh_token := (case td_refresh_token d of
                                      Absent \<Rightarrow> refresh_token c | v \<Rightarrow> v),
                  expiry_date := Val ((clock s (ticks s) + x) * 1000),
                  resource_url := (case td_resource_url d of
                       Absent \<Rightarrow> (case resource_url c of Absent \<Rightarrow> Null | v \<Rightarrow> v)
                     | v \<Rightarrow> v)\<rparr>"
    let ?s2 = "s\<lparr>ticks := Suc (Suc (ticks s))\<rparr>"
    from assms Some Val obtain m where
      r: "then_do (save_credentials p
                     (?c4\<lparr>proxy_metadata := Val (m\<lparr>last_check_timestamp := Val (clock s (Suc (ticks s)))\<rparr>)\<rparr>)
                     (clear_failures p (put_cache p
                        (?c4\<lparr>proxy_metadata := Val (m\<lparr>last_check_timestamp := Val (clock s (Suc (ticks s)))\<rparr>)\<rparr>) ?s2)))
            (\<lambda>_ s4. (Returns (?c4\<lparr>proxy_metadata := Val (m\<lparr>last_check_timestamp := Val (clock s (Suc (ticks s)))\<rparr>)\<rparr>), s4)) =
          (Returns c', s')"
      by (cases "proxy_metadata c")
         (simp_all add: store_refreshed_def time_time_def Let_def split: if_splits)
    from saved_returns [OF r] Val show ?thesis
      by (simp add: clear_failures_def put_cache_def)
  qed
qed

lemma cached_if_fresh_cases:
  "cached_if_fresh p force s = (r, s1) \<Longrightarrow>
     (r = Returns None \<and> s1 = s \<and>
        (force \<or> credentials_cache s p = None \<or> credentials_cache s p = Some empty_creds)) \<or>
     (\<exists>c. \<not> force \<and> credentials_cache s p = Some c \<and> c \<noteq> empty_creds \<and>
          (r = Raises TypeError \<and> s1 = s \<and> is_token_expired c s = (Raises TypeError, s) \<or>
           s1 = s\<lparr>ticks := Suc (ticks s)\<rparr> \<and>
             (r = Returns None \<and> is_token_expired c s = (Returns True, s1) \<or>
              r = Returns (Some c) \<and> is_token_expired c s = (Returns False, s1))))"
  using is_token_expired_cases [of "the (credentials_cache s p)" s]
  by (cases "credentials_cache s p")
     (auto simp add: cached_if_fresh_def then_do_def split: if_splits)

lemma cached_or_file_cases:
  "cached_or_file p s = (Returns c, s2) \<Longrightarrow>
     (credentials_cache s p = Some c \<and> s2 = s) \<or>
     (credentials_cache s p = None \<and> s2 = put_cache p c s)"
  by (auto simp add: cached_or_file_def read_creds_from_file_def
      split: option.splits file_content.splits)

lemma refresh_locked_returns:
  assumes "refresh_locked i p force s = (Returns c', s')"
  shows "posts s' = posts s \<or>
     (\<exists>s3. after_retries i p (retry_loop 0 None s3) = (Returns c', s') \<and>
           token_endpoint s3 = token_endpoint s \<and> posts s3 = posts s \<and> clock s3 = clock s \<and>
           (ticks s3 = ticks s \<and>
              (force \<or> credentials_cache s p = None \<or> credentials_cache s p = Some empty_creds) \<or>
            ticks s3 = Suc (ticks s) \<and> \<not> force \<and>
              (\<exists>c. credentials_cache s p = Some c \<and> c \<noteq> empty_creds \<and>
                   fst (is_token_expired c s) = Returns True)))"
proof -
  obtain r s1 where a: "cached_if_fresh p force s = (r, s1)"
    by (cases "cached_if_fresh p force s") auto
  from assms a obtain fresh where r: "r = Returns fresh"
    by (cases r) (auto simp add: refresh_locked_def then_do_def)
  show ?thesis
  proof (cases fresh)
    case (Some cc)
    with assms a r have "s' = s1" by (simp add: refresh_locked_def then_do_def)
    moreover from cached_if_fresh_cases [OF a] r Some have "posts s1 = posts s" by auto
    ultimately show ?thesis by simp
  next
    case None
    obtain r2 s2 where b: "cached_or_file p s1 = (r2, s2)"
      by (cases "cached_or_file p s1") auto
    from assms a r None b obtain c where r2: "r2 = Returns c"
      by (cases r2) (auto simp add: refresh_locked_def then_do_def)
    from assms a r None b r2
    have t: "after_retries i p (retry_loop 0 None s2) = (Returns c', s')"
      by (auto simp add: refresh_locked_def then_do_def split: if_splits)
    from cached_or_file_cases [OF b [unfolded r2]]
    have f2: "token_endpoint s2 = token_endpoint s1" "posts s2 = posts s1"
      "clock s2 = clock s1" "ticks s2 = ticks s1"
      by (auto simp add: put_cache_def)
    from cached_if_fresh_cases [OF a] r None
    have "s1 = s \<and>
            (force \<or> credentials_cache s p = None \<or> credentials_cache s p = Some empty_creds) \<or>
          s1 = s\<lparr>ticks := Suc (ticks s)\<rparr> \<and> \<not> force \<and>
            (\<exists>c. credentials_cache s p = Some c \<and> c \<noteq> empty_creds \<and>
                 fst (is_token_expired c s) = Returns True)"
      by auto
    with f2 t show ?thesis by auto
  qed
qed

lemma refresh_returned:
  assumes "run_refresh_token p force s = (Returns c', s')"
    and "posts s < posts s'"
    and "fst (retry_loop 0 None s) = LoopDone (Some d) False"
  shows "\<exists>x. td_expires_in d = Val x \<and> credentials_cache s' p = Some c' \<and>
           expiry_date c' = Val ((clock s (ticks s' - 2) + x) * 1000) \<and>
           (ticks s' = Suc (Suc (ticks s)) \<and>
              (force \<or> credentials_cache s p = None \<or> credentials_cache s p = Some empty_creds) \<or>
            ticks s' = Suc (Suc (Suc (ticks s))) \<and> \<not> force \<and>
              (\<exists>c. credentials_cache s p = Some c \<and> c \<noteq> empty_creds \<and>
                   fst (is_token_expired c s) = Returns True))"
proof -
  have free: "p \<notin> refresh_locks s"
    using assms(1) by (auto simp add: run_refresh_token_def numeral_3_eq_3 with_lock_held)
  let ?s1 = "s\<lparr>refresh_locks := insert p (refresh_locks s)\<rparr>"
  obtain r s'' where rl: "refresh_locked (initialize_token_fuel 2) p force ?s1 = (r, s'')"
    by (cases "refresh_locked (initialize_token_fuel 2) p force ?s1") auto
  with assms(1) have r: "r = Returns c'" and s': "s' = release p s''"
    by (cases r; simp add: run_refresh_token_unlocked [OF free])+
  from assms(2) s' have "posts s'' \<noteq> posts ?s1" by (simp add: release_def)
  with refresh_locked_returns [OF rl [unfolded r]]
  obtain s3 where s3: "after_retries (initialize_token_fuel 2) p (retry_loop 0 None s3) =
                         (Returns c', s'')"
    "token_endpoint s3 = token_endpoint s" "posts s3 = posts s" "clock s3 = clock s"
    "ticks s3 = ticks s \<and>
       (force \<or> credentials_cache s p = None \<or> credentials_cache s p = Some empty_creds) \<or>
     ticks s3 = Suc (ticks s) \<and> \<not> force \<and>
       (\<exists>c. credentials_cache s p = Some c \<and> c \<noteq> empty_creds \<and>
            fst (is_token_expired c ?s1) = Returns True)"
    by auto
  obtain le sx where lx: "retry_loop 0 None s = (LoopDone (Some d) False, le, sx)"
    using assms(3) by (cases "retry_loop 0 None s") auto
  from retry_loop_cong [OF lx s3(2,3)]
  have "retry_loop 0 None s3 = (LoopDone (Some d) False, le, s3\<lparr>posts := posts sx\<rparr>)" .
  with s3(1) have st: "store_refreshed p d (s3\<lparr>posts := posts sx\<rparr>) = (Returns c', s'')"
    by (simp add: after_retries_def)
  from store_refreshed_returns [OF st] obtain x where x: "td_expires_in d = Val x"
    "credentials_cache s'' p = Some c'"
    "expiry_date c' = Val ((clock s3 (ticks s3) + x) * 1000)"
    "ticks s'' = Suc (Suc (ticks s3))"
    by auto
  have e: "fst (is_token_expired c ?s1) = fst (is_token_expired c s)" for c
    by (cases "expiry_date c") (simp_all add: is_token_expired_def time_time_def)
  from x s3(4,5) s' e show ?thesis
    by (auto simp add: release_def)
qed

text \<open>
  And the other way round: for cached credentials with a refresh token, refreshed by force
  or because they are about to expire, a loop left with usable token data makes the call
  return, whichever attempt was answered.
\<close>

lemma refresh_locked_answered:
  assumes "credentials_cache s p = Some c"
    and "truthy (refresh_token c)"
    and "force \<or> fst (is_token_expired c s) = Returns True"
    and "retry_loop 0 None s = (LoopDone (Some d) False, le, sx)"
    and "t = (if force then ticks s else Suc (ticks s))"
  shows "refresh_locked i p force s = store_refreshed p d (s\<lparr>ticks := t, posts := posts sx\<rparr>)"
proof -
  have ne: "c \<noteq> empty_creds" using assms(2) by (auto simp add: empty_creds_def truthy_def)
  let ?s2 = "s\<lparr>ticks := t\<rparr>"
  have a: "cached_if_fresh p force s = (Returns None, ?s2)"
  proof (cases force)
    case True
    with assms(1,5) show ?thesis by (simp add: cached_if_fresh_def)
  next
    case False
    with assms(3) is_token_expired_cases [of c s]
    have "is_token_expired c s = (Returns True, s\<lparr>ticks := Suc (ticks s)\<rparr>)" by auto
    with False assms(1,5) ne show ?thesis by (simp add: cached_if_fresh_def then_do_def)
  qed
  have b: "cached_or_file p ?s2 = (Returns c, ?s2)"
    using assms(1) by (simp add: cached_or_file_def)
  have "retry_loop 0 None ?s2 = (LoopDone (Some d) False, le, ?s2\<lparr>posts := posts sx\<rparr>)"
    by (rule retry_loop_cong [OF assms(4)]) simp_all
  with a b assms(2) show ?thesis
    by (simp add: refresh_locked_def then_do_def after_retries_def)
qed

lemma refresh_succeeds:
  assumes "p \<notin> refresh_locks s"
    and "credentials_cache s p = Some c"
    and "truthy (refresh_token c)"
    and "proxy_metadata c \<noteq> Null"
    and "force \<or> fst (is_token_expired c s) = Returns True"
    and "fst (retry_loop 0 None s) = LoopDone (Some d) False"
    and "td_expires_in d = Val x"
    and "truthy (td_access_token d)"
    and "td_refresh_token d = Absent \<or> truthy (td_refresh_token d)"
    and "p \<notin> unwritable s \<or> (\<exists>m. proxy_metadata c = Val m \<and> loaded_from_env m)"
    and "t = (if force then ticks s else Suc (ticks s))"
  shows "\<exists>s'. run_refresh_token p force s =
                (Returns (refreshed c d (clock s t) x (clock s (Suc t))), s') \<and>
              credentials_cache s' p = Some (refreshed c d (clock s t) x (clock s (Suc t))) \<and>
              posts s < posts s' \<and>
              refresh_failures s' p = None \<and> next_refresh_after s' p = None"
proof -
  let ?s1 = "s\<lparr>refresh_locks := insert p (refresh_locks s)\<rparr>"
  obtain le sx where lx: "retry_loop 0 None s = (LoopDone (Some d) False, le, sx)"
    using assms(6) by (cases "retry_loop 0 None s") auto
  have grow: "posts s < posts sx"
    by (rule retry_loop_posts_grow [OF lx]) (simp add: max_retries_def)
  have l1: "retry_loop 0 None ?s1 = (LoopDone (Some d) False, le, ?s1\<lparr>posts := posts sx\<rparr>)"
    by (rule retry_loop_cong [OF lx]) simp_all
  have e: "fst (is_token_expired c ?s1) = fst (is_token_expired c s)"
    by (cases "expiry_date c") (simp_all add: is_token_expired_def time_time_def)
  let ?s2 = "?s1\<lparr>ticks := t, posts := posts sx\<rparr>"
  let ?c5 = "refreshed c d (clock s t) x (clock s (Suc t))"
  have a: "refresh_locked (initialize_token_fuel 2) p force ?s1 = store_refreshed p d ?s2"
  proof -
    have "refresh_locked (initialize_token_fuel 2) p force ?s1 =
          store_refreshed p d
            (?s1\<lparr>ticks := t, posts := posts (?s1\<lparr>posts := posts sx\<rparr>)\<rparr>)"
    proof (rule refresh_locked_answered [where c = c and le = le])
      show "credentials_cache ?s1 p = Some c" using assms(2) by simp
      show "truthy (refresh_token c)" by (rule assms(3))
      show "force \<or> fst (is_token_expired c ?s1) = Returns True" using assms(5) e by simp
      show "retry_loop 0 None ?s1 = (LoopDone (Some d) False, le, ?s1\<lparr>posts := posts sx\<rparr>)"
        by (rule l1)
      show "t = (if force then ticks ?s1 else Suc (ticks ?s1))" using assms(11) by simp
    qed
    then show ?thesis by simp
  qed
  have ra: "refresh_token c \<noteq> Absent" using assms(3) by (auto simp add: truthy_def)
  have ta: "td_access_token d \<noteq> Absent" using assms(8) by (auto simp add: truthy_def)
  have ok: "truthy (access_token ?c5) \<and> truthy (refresh_token ?c5)"
    using assms(3,8,9) by (auto simp add: refreshed_def truthy_def split: field.splits)
  have "\<exists>s4. save_credentials p ?c5
               (clear_failures p (put_cache p ?c5 (?s2\<lparr>ticks := Suc (Suc t)\<rparr>))) =
             (Returns (), s4) \<and> credentials_cache s4 p = Some ?c5 \<and>
             posts s4 = posts sx \<and>
             refresh_failures s4 p = None \<and> next_refresh_after s4 p = None"
    using assms(10)
    by (auto simp add: save_credentials_def write_file_def clear_failures_def put_cache_def
        refreshed_def split: field.splits)
  then obtain s4 where s4: "save_credentials p ?c5
               (clear_failures p (put_cache p ?c5 (?s2\<lparr>ticks := Suc (Suc t)\<rparr>))) =
             (Returns (), s4)" "credentials_cache s4 p = Some ?c5" "posts s4 = posts sx"
             "refresh_failures s4 p = None" "next_refresh_after s4 p = None" by blast
  have b: "store_refreshed p d ?s2 = (Returns ?c5, s4)"
    using ok s4(1)
    by (subst store_refreshed_value [of ?s2 p c d x])
       (use assms(2,4,7) ra ta in \<open>simp_all add: Let_def then_do_def\<close>)
  have r: "run_refresh_token p force s = (Returns ?c5, release p s4)"
    by (simp add: run_refresh_token_unlocked [OF assms(1)] a b)
  from r s4(2-5) grow show ?thesis by (simp add: release_def)
qed

lemma retry_loop_second_attempt:
  assumes "token_endpoint s (posts s) = StatusError c h" "500 \<le> c" "c < 600"
    and "token_endpoint s (Suc (posts s)) = Response d"
  shows "retry_loop 0 None s =
           (LoopDone d False, Some (HTTPStatusError c), s\<lparr>posts := Suc (Suc (posts s))\<rparr>)"
proof -
  have "retry_loop 0 None s =
        retry_loop (Suc 0) (Some (HTTPStatusError c)) (s\<lparr>posts := Suc (posts s)\<rparr>)"
    using assms(1-3) by (intro retry_loop_5xx_again) simp_all
  also have "\<dots> = (LoopDone d False, Some (HTTPStatusError c),
                      s\<lparr>posts := Suc (Suc (posts s))\<rparr>)"
    using assms(4) by (subst retry_loop.simps) (simp add: max_retries_def Let_def)
  finally show ?thesis .
qed

text \<open>
  C7, as the code has it. Take any call of \<^verbatim>\<open>_refresh_token\<close>, forced or not, that
  returns after it made requests and its retry loop was left with token data, at whichever
  of the three attempts. The credentials it returns are the cache entry, and their
  \<^verbatim>\<open>expiry_date\<close> is \<open>(now + expires_in) * 1000\<close>, where \<^verbatim>\<open>expires_in\<close> comes from the
  token data and \<open>now\<close> is the clock as read when the data are stored (the first reading of
  the call, or the second when the expiry test came first); the old value plays no part.
  The new value is not below the old one when the call was not forced and found cached
  credentials with a number for expiry (so that the expiry test found it within the refresh
  buffer), the clock did not go back since that test, and \<^verbatim>\<open>expires_in\<close> is at least
  the refresh buffer of three hours. Such calls exist: with cached credentials that have a
  refresh token and metadata that is not null, forced or about to expire, a loop left with
  token data that have a number \<^verbatim>\<open>expires_in\<close>, a non-empty access token and no or a
  non-empty refresh token, and a file that can be written or credentials that came from the
  environment, the call returns after at least one request.
\<close>

theorem refresh_expiry_overwritten:
  "(run_refresh_token p force s = (Returns c', s') \<and> posts s < posts s' \<and>
    fst (retry_loop 0 None s) = LoopDone (Some d) False \<longrightarrow>
      (\<exists>x now. td_expires_in d = Val x \<and>
         now = clock s (if force \<or> credentials_cache s p = None \<or>
                           credentials_cache s p = Some empty_creds
                        then ticks s else Suc (ticks s)) \<and>
         expiry_date c' = Val ((now + x) * 1000) \<and>
         credentials_cache s' p = Some c' \<and>
         (\<not> force \<and> credentials_cache s p = Some c \<and> expiry_date c = Val old \<and>
          clock s (ticks s) \<le> now \<and> REFRESH_EXPIRY_BUFFER_SECONDS \<le> x \<longrightarrow>
            old \<le> (now + x) * 1000))) \<and>
   (p \<notin> refresh_locks s \<and> credentials_cache s p = Some c \<and> truthy (refresh_token c) \<and>
    proxy_metadata c \<noteq> Null \<and> (force \<or> fst (is_token_expired c s) = Returns True) \<and>
    fst (retry_loop 0 None s) = LoopDone (Some d) False \<and>
    td_expires_in d = Val y \<and> truthy (td_access_token d) \<and>
    (td_refresh_token d = Absent \<or> truthy (td_refresh_token d)) \<and>
    (p \<notin> unwritable s \<or> (\<exists>m. proxy_metadata c = Val m \<and> loaded_from_env m)) \<longrightarrow>
      (\<exists>c2 s2. run_refresh_token p force s = (Returns c2, s2) \<and> posts s < posts s2))"
proof (intro conjI impI)
  assume a: "run_refresh_token p force s = (Returns c', s') \<and> posts s < posts s' \<and>
    fst (retry_loop 0 None s) = LoopDone (Some d) False"
  let ?t = "if force \<or> credentials_cache s p = None \<or> credentials_cache s p = Some empty_creds
            then ticks s else Suc (ticks s)"
  from a refresh_returned [of p force s c' s' d]
  obtain x where x: "td_expires_in d = Val x" "credentials_cache s' p = Some c'"
    "expiry_date c' = Val ((clock s (ticks s' - 2) + x) * 1000)"
    "ticks s' = Suc (Suc (ticks s)) \<and>
       (force \<or> credentials_cache s p = None \<or> credentials_cache s p = Some empty_creds) \<or>
     ticks s' = Suc (Suc (Suc (ticks s))) \<and> \<not> force \<and>
       (\<exists>c. credentials_cache s p = Some c \<and> c \<noteq> empty_creds \<and>
            fst (is_token_expired c s) = Returns True)"
    by blast
  from x(4) have t: "ticks s' - 2 = ?t" by auto
  have m: "old \<le> (clock s ?t + x) * 1000"
    if h: "\<not> force" "credentials_cache s p = Some c" "expiry_date c = Val old"
      "clock s (ticks s) \<le> clock s ?t" "REFRESH_EXPIRY_BUFFER_SECONDS \<le> x"
  proof -
    from x(4) h(1,2,3) have "fst (is_token_expired c s) = Returns True"
      by (auto simp add: empty_creds_def)
    with h(3) have "old / 1000 < clock s (ticks s) + REFRESH_EXPIRY_BUFFER_SECONDS"
      by (simp add: is_token_expired_def time_time_def)
    with h(4,5) show ?thesis by (simp add: field_simps)
  qed
  define now where "now = clock s ?t"
  have e: "expiry_date c' = Val ((now + x) * 1000)"
    using x(3) t by (simp only: now_def)
  have m': "\<not> force \<and> credentials_cache s p = Some c \<and> expiry_date c = Val old \<and>
          clock s (ticks s) \<le> now \<and> REFRESH_EXPIRY_BUFFER_SECONDS \<le> x \<longrightarrow>
            old \<le> (now + x) * 1000"
    using m unfolding now_def by blast
  from x(1) now_def e x(2) m'
  show "\<exists>x now. td_expires_in d = Val x \<and>
         now = clock s ?t \<and>
         expiry_date c' = Val ((now + x) * 1000) \<and>
         credentials_cache s' p = Some c' \<and>
         (\<not> force \<and> credentials_cache s p = Some c \<and> expiry_date c = Val old \<and>
          clock s (ticks s) \<le> now \<and> REFRESH_EXPIRY_BUFFER_SECONDS \<le> x \<longrightarrow>
            old \<le> (now + x) * 1000)"
    by blast
next
  assume b: "p \<notin> refresh_locks s \<and> credentials_cache s p = Some c \<and> truthy (refresh_token c) \<and>
    proxy_metadata c \<noteq> Null \<and> (force \<or> fst (is_token_expired c s) = Returns True) \<and>
    fst (retry_loop 0 None s) = LoopDone (Some d) False \<and>
    td_expires_in d = Val y \<and> truthy (td_access_token d) \<and>
    (td_refresh_token d = Absent \<or> truthy (td_refresh_token d)) \<and>
    (p \<notin> unwritable s \<or> (\<exists>m. proxy_metadata c = Val m \<and> loaded_from_env m))"
  from b refresh_succeeds [of p s c force d y "if force then ticks s else Suc (ticks s)"]
  show "\<exists>c2 s2. run_refresh_token p force s = (Returns c2, s2) \<and> posts s < posts s2"
    by blast
qed

theorem refresh_expiry_overwritten_witness:
  "(\<exists>c' s'. run_refresh_token ''a.json'' True
       (quiet_world\<lparr>credentials_cache := [''a.json'' \<mapsto> stored_creds],
          token_endpoint := answered_second short_lived_tokens\<rparr>) = (Returns c', s') \<and>
     credentials_cache s' ''a.json'' = Some c' \<and> expiry_date c' = Val 1060000) \<and>
   (\<exists>c' s'. run_refresh_token ''a.json'' False
       (quiet_world\<lparr>credentials_cache := [''a.json'' \<mapsto> stored_creds],
          token_endpoint := answered_second (short_lived_tokens\<lparr>td_expires_in := Val 10800\<rparr>)\<rparr>) =
       (Returns c', s') \<and>
     credentials_cache s' ''a.json'' = Some c' \<and> expiry_date c' = Val 11801000 \<and>
     expiry_date stored_creds = Val 5000000 \<and> (5000000::real) \<le> 11801000)"
proof -
  let ?W1 = "quiet_world\<lparr>credentials_cache := [''a.json'' \<mapsto> stored_creds],
          token_endpoint := answered_second short_lived_tokens\<rparr>"
  let ?d2 = "short_lived_tokens\<lparr>td_expires_in := Val 10800\<rparr>"
  let ?W2 = "quiet_world\<lparr>credentials_cache := [''a.json'' \<mapsto> stored_creds],
          token_endpoint := answered_second ?d2\<rparr>"
  have l1: "fst (retry_loop 0 None ?W1) = LoopDone (Some short_lived_tokens) False"
    by (subst retry_loop_second_attempt [of _ 503 RetryAbsent "Some short_lived_tokens"])
       (simp_all add: quiet_world_def answered_second_def)
  have l2: "fst (retry_loop 0 None ?W2) = LoopDone (Some ?d2) False"
    by (subst retry_loop_second_attempt [of _ 503 RetryAbsent "Some ?d2"])
       (simp_all add: quiet_world_def answered_second_def)
  have "\<exists>c2 s2. run_refresh_token ''a.json'' True ?W1 = (Returns c2, s2) \<and> posts ?W1 < posts s2"
    using refresh_expiry_overwritten
      [where p = "''a.json''" and force = True and s = ?W1 and d = short_lived_tokens
         and c = stored_creds and y = 60] l1
    by (simp add: quiet_world_def stored_creds_def short_lived_tokens_def truthy_def)
  then obtain c1 s1 where r1: "run_refresh_token ''a.json'' True ?W1 = (Returns c1, s1)"
    "posts ?W1 < posts s1" by blast
  have w1: "credentials_cache s1 ''a.json'' = Some c1 \<and> expiry_date c1 = Val 1060000"
    using refresh_expiry_overwritten
      [where p = "''a.json''" and force = True and s = ?W1 and d = short_lived_tokens
         and c' = c1 and s' = s1] r1 l1
    by (simp add: quiet_world_def short_lived_tokens_def)
  have "\<exists>c2 s2. run_refresh_token ''a.json'' False ?W2 = (Returns c2, s2) \<and> posts ?W2 < posts s2"
    using refresh_expiry_overwritten
      [where p = "''a.json''" and force = False and s = ?W2 and d = ?d2
         and c = stored_creds and y = 10800] l2
    by (simp add: quiet_world_def stored_creds_def short_lived_tokens_def truthy_def
        is_token_expired_def time_time_def REFRESH_EXPIRY_BUFFER_SECONDS_def)
  then obtain c2 s2 where r2: "run_refresh_token ''a.json'' False ?W2 = (Returns c2, s2)"
    "posts ?W2 < posts s2" by blast
  have w2: "credentials_cache s2 ''a.json'' = Some c2 \<and> expiry_date c2 = Val 11801000"
    using refresh_expiry_overwritten
      [where p = "''a.json''" and force = False and s = ?W2 and d = ?d2
         and c' = c2 and s' = s2 and c = stored_creds and old = 5000000] r2 l2
    by (simp add: quiet_world_def short_lived_tokens_def stored_creds_def empty_creds_def
        REFRESH_EXPIRY_BUFFER_SECONDS_def)
  from r1(1) w1 r2(1) w2 show ?thesis by (simp add: stored_creds_def)
qed

text \<open>
  C7 as stated fails: cached credentials that expire at 5000 s, refreshed (not forced) at
  1000 s with an answer that says \<^verbatim>\<open>expires_in = 60\<close>, come back expiring at 1061 s.
\<close>

theorem refresh_reduces_expiry:
  "credentials_cache
     (quiet_world\<lparr>credentials_cache := [''a.json'' \<mapsto> stored_creds],
        token_endpoint := (\<lambda>_. Response (Some short_lived_tokens))\<rparr>) ''a.json'' =
     Some stored_creds \<and>
   expiry_date stored_creds = Val 5000000 \<and>
   fst (run_refresh_token ''a.json'' False
     (quiet_world\<lparr>credentials_cache := [''a.json'' \<mapsto> stored_creds],
        token_endpoint := (\<lambda>_. Response (Some short_lived_tokens))\<rparr>)) =
     Returns (refreshed stored_creds short_lived_tokens 1001 60 1002) \<and>
   expiry_date (refreshed stored_creds short_lived_tokens 1001 60 1002) = Val 1061000"
  using refresh_success
    [of "''a.json''"
        "quiet_world\<lparr>credentials_cache := [''a.json'' \<mapsto> stored_creds],
          token_endpoint := (\<lambda>_. Response (Some short_lived_tokens))\<rparr>"
        stored_creds False short_lived_tokens 60 1]
  by (auto simp add: quiet_world_def stored_creds_def short_lived_tokens_def truthy_def
      REFRESH_EXPIRY_BUFFER_SECONDS_def refreshed_def)

section \<open>What the worker does with an item\<close>

lemma run_refresh_token_held:
  "p \<in> refresh_locks s \<Longrightarrow> run_refresh_token p force s = (Blocks, s)"
  by (simp add: run_refresh_token_def numeral_3_eq_3 with_lock_held)

lemma worker_item_fresh:
  assumes "credentials_cache s p = Some c" "c \<noteq> empty_creds" "expiry_date c = Val e"
    and "\<not> e / 1000 < clock s (ticks s) + REFRESH_EXPIRY_BUFFER_SECONDS"
  shows "worker_item p force s = (Returns True, mark_available p (s\<lparr>ticks := Suc (ticks s)\<rparr>))"
  using assms
  by (simp add: worker_item_def is_token_expired_def time_time_def then_do_def)

lemma worker_item_expired_held:
  assumes "credentials_cache s p = Some c" "c \<noteq> empty_creds" "expiry_date c = Val e"
    and "e / 1000 < clock s (ticks s) + REFRESH_EXPIRY_BUFFER_SECONDS"
    and "p \<in> refresh_locks s"
  shows "worker_item p force s = (Blocks, s\<lparr>ticks := Suc (ticks s)\<rparr>)"
  using assms
  by (simp add: worker_item_def is_token_expired_def time_time_def then_do_def
      dict_truthy_def run_refresh_token_held)

text \<open>
  C3 fails on the code in its second half. Take a queue whose first item is
  \<open>(p, force, needs_reauth)\<close>, with the lock of \<open>p\<close> free and non-empty credentials
  cached for \<open>p\<close>. When they are not about to expire, the worker marks \<open>p\<close> available
  and ends the item with no request to the token endpoint, whatever \<open>force\<close> is: the
  flag is not looked at. When they are about to expire, the worker calls
  \<^verbatim>\<open>_refresh_token\<close> while it holds the lock of \<open>p\<close>, which \<^verbatim>\<open>_refresh_token\<close> takes
  itself: the call never returns, no request is made, and \<open>p\<close> stays queued and
  unavailable.
\<close>

theorem worker_turn_never_refreshes:
  assumes "refresh_queue s = (p, force, needs_reauth) # rest"
    and "p \<notin> refresh_locks s"
    and "credentials_cache s p = Some c"
    and "c \<noteq> empty_creds"
    and "expiry_date c = Val e"
  shows "(\<not> e / 1000 < clock s (ticks s) + REFRESH_EXPIRY_BUFFER_SECONDS \<longrightarrow>
            process_refresh_queue_turn s =
              (Returns Continue,
               s\<lparr>refresh_queue := rest, ticks := Suc (ticks s),
                 queued_credentials := queued_credentials s - {p},
                 unavailable_credentials := (unavailable_credentials s)(p := None)\<rparr>)) \<and>
         (e / 1000 < clock s (ticks s) + REFRESH_EXPIRY_BUFFER_SECONDS \<longrightarrow>
            process_refresh_queue_turn s =
              (Blocks,
               s\<lparr>refresh_queue := rest, refresh_locks := insert p (refresh_locks s),
                 ticks := Suc (ticks s)\<rparr>))"
proof (cases "e / 1000 < clock s (ticks s) + REFRESH_EXPIRY_BUFFER_SECONDS")
  case False
  let ?s1 = "s\<lparr>refresh_queue := rest, refresh_locks := insert p (refresh_locks s)\<rparr>"
  have "worker_item p force ?s1 = (Returns True, mark_available p (?s1\<lparr>ticks := Suc (ticks ?s1)\<rparr>))"
    using assms(3,4,5) False by (intro worker_item_fresh [of ?s1 p c e]) simp_all
  with False assms(1,2) show ?thesis
    by (cases s)
       (simp add: process_refresh_queue_turn_def with_lock_def release_def mark_available_def
         finally_cleanup_def)
next
  case True
  let ?s1 = "s\<lparr>refresh_queue := rest, refresh_locks := insert p (refresh_locks s)\<rparr>"
  have "worker_item p force ?s1 = (Blocks, ?s1\<lparr>ticks := Suc (ticks ?s1)\<rparr>)"
    using assms(3,4,5) True by (intro worker_item_expired_held [of ?s1 p c e]) simp_all
  with True assms(1,2) show ?thesis
    by (simp add: process_refresh_queue_turn_def with_lock_def)
qed

theorem worker_turn_never_refreshes_witness:
  "process_refresh_queue_turn
     (quiet_world\<lparr>credentials_cache := [''a.json'' \<mapsto> stored_creds\<lparr>expiry_date := Val 90000000\<rparr>],
        refresh_queue := [(''a.json'', True, False)], queued_credentials := {''a.json''},
        unavailable_credentials := [''a.json'' \<mapsto> 999]\<rparr>) =
     (Returns Continue,
      quiet_world\<lparr>credentials_cache := [''a.json'' \<mapsto> stored_creds\<lparr>expiry_date := Val 90000000\<rparr>],
        refresh_queue := [], queued_credentials := {},
        unavailable_credentials := Map.empty, ticks := 1\<rparr>)
   \<and> process_refresh_queue_turn
     (quiet_world\<lparr>credentials_cache := [''a.json'' \<mapsto> stored_creds],
        refresh_queue := [(''a.json'', False, False)], queued_credentials := {''a.json''},
        unavailable_credentials := [''a.json'' \<mapsto> 999]\<rparr>) =
     (Blocks,
      quiet_world\<lparr>credentials_cache := [''a.json'' \<mapsto> stored_creds],
        refresh_queue := [], queued_credentials := {''a.json''},
        unavailable_credentials := [''a.json'' \<mapsto> 999],
        refresh_locks := {''a.json''}, ticks := 1\<rparr>)"
  using
    worker_turn_never_refreshes
      [of "quiet_world\<lparr>credentials_cache := [''a.json'' \<mapsto> stored_creds\<lparr>expiry_date := Val 90000000\<rparr>],
             refresh_queue := [(''a.json'', True, False)], queued_credentials := {''a.json''},
             unavailable_credentials := [''a.json'' \<mapsto> 999]\<rparr>"
          "''a.json''" True False "[]" "stored_creds\<lparr>expiry_date := Val 90000000\<rparr>" 90000000]
    worker_turn_never_refreshes
      [of "quiet_world\<lparr>credentials_cache := [''a.json'' \<mapsto> stored_creds],
             refresh_queue := [(''a.json'', False, False)], queued_credentials := {''a.json''},
             unavailable_credentials := [''a.json'' \<mapsto> 999]\<rparr>"
          "''a.json''" False False "[]" stored_creds 5000000]
  by (simp add: quiet_world_def stored_creds_def empty_creds_def
      REFRESH_EXPIRY_BUFFER_SECONDS_def)

section \<open>Unavailable credentials are queued ones\<close>

text \<open>
  Only \<^verbatim>\<open>_queue_refresh\<close>, \<^verbatim>\<open>is_credential_available\<close> and the worker write to
  \<^verbatim>\<open>_queued_credentials\<close> and \<^verbatim>\<open>_unavailable_credentials\<close>. First, the other methods
  leave both collections as they are.
\<close>

lemma then_do_tracking:
  assumes "tracking (snd r) = t" and "\<And>x s. tracking (snd (k x s)) = tracking s"
  shows "tracking (snd (then_do r k)) = t"
  using assms by (cases r; cases "fst r") (auto simp add: then_do_def)

lemma on_exception_tracking:
  assumes "tracking (snd r) = t" and "\<And>e s. tracking (snd (h e s)) = tracking s"
  shows "tracking (snd (on_exception r h)) = t"
  using assms by (cases r; cases "fst r") (auto simp add: on_exception_def)

lemma is_token_expired_tracking: "tracking (snd (is_token_expired c s)) = tracking s"
  using is_token_expired_cases [of c s] by (auto simp add: tracking_def)

lemma save_credentials_tracking: "tracking (snd (save_credentials p c s)) = tracking s"
  by (simp add: save_credentials_def write_file_def tracking_def split: field.splits)

lemma load_from_env_tracking: "tracking (snd (load_from_env i s)) = tracking s"
  by (simp add: load_from_env_def time_time_def tracking_def Let_def)

lemma load_uncached_tracking: "tracking (snd (load_uncached p s)) = tracking s"
proof -
  have a: "load_from_env i s = (r, s1) \<Longrightarrow> tracking s1 = tracking s" for i r s1
    using load_from_env_tracking [of i s] by simp
  show ?thesis
    by (auto simp add: load_uncached_def read_creds_from_file_def put_cache_def tracking_def
        dest!: a split: option.splits prod.splits file_content.splits)
qed

lemma with_lock_tracking:
  assumes "\<And>s'. tracking (snd (body s')) = tracking s'"
  shows "tracking (snd (with_lock p body s)) = tracking s"
proof (cases "p \<in> refresh_locks s")
  case True
  then show ?thesis by (simp add: with_lock_def)
next
  case False
  let ?s1 = "s\<lparr>refresh_locks := insert p (refresh_locks s)\<rparr>"
  obtain r s' where b: "body ?s1 = (r, s')" by (cases "body ?s1") auto
  with assms [of ?s1] have "tracking s' = tracking s" by (simp add: tracking_def)
  with False b show ?thesis
    by (cases r) (simp_all add: with_lock_def release_def tracking_def)
qed

lemma load_credentials_tracking: "tracking (snd (load_credentials p s)) = tracking s"
  by (cases "credentials_cache s p")
     (simp_all add: load_credentials_def with_lock_tracking load_uncached_tracking)

lemma saved_tracking:
  "tracking (snd (then_do (save_credentials p c5 s3) (\<lambda>_ s4. (Returns c5, s4)))) = tracking s3"
  by (rule then_do_tracking [OF save_credentials_tracking]) simp

lemma store_refreshed_tracking: "tracking (snd (store_refreshed p d s)) = tracking s"
proof (cases "credentials_cache s p")
  case None
  then show ?thesis by (simp add: store_refreshed_def)
next
  case (Some c)
  have t: "tracking (put_cache p c1 (s1\<lparr>ticks := n\<rparr>)) = tracking s1"
    "tracking (put_cache p c1 s1) = tracking s1"
    "tracking (s1\<lparr>ticks := n\<rparr>) = tracking s1"
    "tracking (clear_failures p s1) = tracking s1" for c1 s1 n
    by (simp_all add: tracking_def put_cache_def clear_failures_def)
  from Some show ?thesis
    unfolding store_refreshed_def
    by (simp add: Let_def time_time_def saved_tracking t split: field.splits)
qed

lemma perform_interactive_oauth_tracking:
  "tracking (snd (perform_interactive_oauth p s)) = tracking s"
proof -
  have t: "tracking (put_cache p c1 s1) = tracking s1"
    "tracking (s1\<lparr>ticks := n\<rparr>) = tracking s1"
    "tracking (s1\<lparr>flows := n\<rparr>) = tracking s1" for c1 s1 n
    by (simp_all add: tracking_def put_cache_def)
  show ?thesis
    unfolding perform_interactive_oauth_def
    by (simp add: Let_def time_time_def saved_tracking t
        split: field.splits flow_result.splits option.splits)
qed

lemma retry_loop_tracking:
  "tracking (snd (snd (retry_loop a le s))) = tracking s"
proof -
  obtain x le' s' where r: "retry_loop a le s = (x, le', s')" by (cases "retry_loop a le s") auto
  then obtain n where "s' = s\<lparr>posts := n\<rparr>" using retry_loop_posts_only by blast
  with r show ?thesis by (simp add: tracking_def)
qed

lemma after_retries_tracking:
  assumes "\<And>s'. tracking (snd (init p s')) = tracking s'"
  shows "tracking (snd (after_retries init p r)) = tracking (snd (snd r))"
proof -
  obtain x le s3 where r: "r = (x, le, s3)" by (cases r) auto
  obtain o4 s4 where i: "init p s3 = (o4, s4)" by (cases "init p s3") auto
  with assms [of s3] have i4: "tracking s4 = tracking s3" by simp
  have t: "tracking (record_failure p s1) = tracking s1"
    "tracking (clear_failures p s1) = tracking s1" for s1
    by (simp_all add: tracking_def record_failure_def clear_failures_def time_time_def Let_def)
  from r i i4 show ?thesis
    by (cases x; cases o4)
       (auto simp add: after_retries_def store_refreshed_tracking t
          split: option.splits bool.splits)
qed

lemma cached_if_fresh_tracking: "tracking (snd (cached_if_fresh p force s)) = tracking s"
proof (cases "credentials_cache s p")
  case None
  then show ?thesis by (simp add: cached_if_fresh_def)
next
  case (Some c)
  have "tracking (snd (then_do (is_token_expired c s)
               (\<lambda>expired s1. (Returns (if expired then None else Some c), s1)))) = tracking s"
    by (rule then_do_tracking [OF is_token_expired_tracking]) simp
  with Some show ?thesis by (simp add: cached_if_fresh_def)
qed

lemma cached_or_file_tracking: "tracking (snd (cached_or_file p s)) = tracking s"
  by (simp add: cached_or_file_def read_creds_from_file_def put_cache_def tracking_def
      split: option.splits file_content.splits)

lemma refresh_locked_tracking:
  assumes "\<And>s'. tracking (snd (init p s')) = tracking s'"
  shows "tracking (snd (refresh_locked init p force s)) = tracking s"
  unfolding refresh_locked_def
proof (rule then_do_tracking [OF cached_if_fresh_tracking])
  fix fresh :: "creds option" and s1 :: state
  have ar: "\<And>s2. tracking (snd (after_retries init p (retry_loop 0 None s2))) = tracking s2"
    using after_retries_tracking [of init p, OF assms] retry_loop_tracking by simp
  have "tracking (snd (then_do (cached_or_file p s1)
               (\<lambda>creds_from_file s2.
                  if \<not> truthy (refresh_token creds_from_file) then (Raises ValueError, s2)
                  else after_retries init p (retry_loop 0 None s2)))) = tracking s1"
    by (rule then_do_tracking [OF cached_or_file_tracking]) (simp add: ar)
  then show "tracking (snd (case fresh of
                    None \<Rightarrow> then_do (cached_or_file p s1)
                      (\<lambda>creds_from_file s2.
                         if \<not> truthy (refresh_token creds_from_file) then (Raises ValueError, s2)
                         else after_retries init p (retry_loop 0 None s2))
                  | Some cached_creds \<Rightarrow> (Returns cached_creds, s1))) = tracking s1"
    by (cases fresh) simp_all
qed

lemma initialize_body_tracking:
  assumes "\<And>s'. tracking (snd (refr p s')) = tracking s'"
  shows "tracking (snd (initialize_body refr p s)) = tracking s"
proof -
  define interactive where "interactive = execute_reauth (perform_interactive_oauth p)"
  define call where
    "call = (\<lambda>s2. case refr p s2 of (Raises e, s3) \<Rightarrow> interactive s3 | other \<Rightarrow> other)"
  define k2 where
    "k2 = (\<lambda>c expired s2. if expired then call s2 else (Returns c, s2))"
  define k1 where
    "k1 = (\<lambda>c s1. if \<not> truthy (refresh_token c) then interactive s1
                    else then_do (is_token_expired c s1) (k2 c))"
  have inter: "\<And>s'. tracking (snd (interactive s')) = tracking s'"
    by (simp add: interactive_def execute_reauth_def perform_interactive_oauth_tracking)
  have c: "\<And>s2. tracking (snd (call s2)) = tracking s2"
  proof -
    fix s2
    obtain r s3 where a: "refr p s2 = (r, s3)" by (cases "refr p s2") auto
    with assms [of s2] have "tracking s3 = tracking s2" by simp
    with a inter [of s3] show "tracking (snd (call s2)) = tracking s2"
      by (cases r) (simp_all add: call_def)
  qed
  have f2: "\<And>c expired s2. tracking (snd (k2 c expired s2)) = tracking s2"
    by (simp add: k2_def c)
  have f1: "\<And>c s1. tracking (snd (k1 c s1)) = tracking s1"
  proof -
    fix c s1
    have "tracking (snd (then_do (is_token_expired c s1) (k2 c))) = tracking s1"
      by (rule then_do_tracking [OF is_token_expired_tracking]) (rule f2)
    then show "tracking (snd (k1 c s1)) = tracking s1"
      by (simp add: k1_def inter)
  qed
  have body: "tracking (snd (if p = [] then (Raises AttributeError, s)
                   else then_do (load_credentials p s) k1)) = tracking s"
  proof (cases "p = []")
    case True
    then show ?thesis by simp
  next
    case False
    have "tracking (snd (then_do (load_credentials p s) k1)) = tracking s"
      by (rule then_do_tracking [OF load_credentials_tracking]) (rule f1)
    with False show ?thesis by simp
  qed
  have "initialize_body refr p s =
          on_exception (if p = [] then (Raises AttributeError, s)
                        else then_do (load_credentials p s) k1)
            (\<lambda>e s'. (Raises ValueError, s'))"
    unfolding initialize_body_def k1_def k2_def call_def interactive_def ..
  moreover have "tracking (snd (on_exception (if p = [] then (Raises AttributeError, s)
                        else then_do (load_credentials p s) k1)
            (\<lambda>e s'. (Raises ValueError, s')))) = tracking s"
    by (rule on_exception_tracking [OF body]) simp
  ultimately show ?thesis by simp
qed

lemma fuel_tracking:
  "(\<forall>p force s. tracking (snd (refresh_token_fuel n p force s)) = tracking s) \<and>
   (\<forall>p s. tracking (snd (initialize_token_fuel n p s)) = tracking s)"
proof (induction n)
  case 0
  show ?case by simp
next
  case (Suc n)
  have a: "tracking (snd (refresh_token_fuel (Suc n) p force s)) = tracking s" for p force s
  proof -
    have "tracking (snd (with_lock p (refresh_locked (initialize_token_fuel n) p force) s)) =
          tracking s"
      by (rule with_lock_tracking, rule refresh_locked_tracking) (simp add: Suc)
    then show ?thesis by simp
  qed
  have b: "tracking (snd (initialize_token_fuel (Suc n) p s)) = tracking s" for p s
  proof -
    have "tracking (snd (initialize_body (\<lambda>q. refresh_token_fuel n q False) p s)) = tracking s"
      by (rule initialize_body_tracking) (simp add: Suc)
    then show ?thesis by simp
  qed
  from a b show ?case by blast
qed

lemma refresh_token_tracking: "tracking (snd (run_refresh_token p force s)) = tracking s"
  using fuel_tracking [of 3] by (simp add: run_refresh_token_def)

lemma initialize_token_tracking: "tracking (snd (initialize_token p s)) = tracking s"
  using fuel_tracking [of 4] by (simp add: initialize_token_def)

lemma get_api_details_tracking: "tracking (snd (get_api_details i s)) = tracking s"
proof (cases "files s i \<noteq> None")
  case False
  then show ?thesis by (simp add: get_api_details_def)
next
  case True
  have k3: "tracking (snd ((case resource_url c' of
                         Null \<Rightarrow> (Raises AttributeError, s3)
                       | url \<Rightarrow>
                           (let u = (case url of Val v \<Rightarrow> v | _ \<Rightarrow> DEFAULT_BASE_URL);
                                base_url = (if startswith u ''http'' then u else ''https://'' @ u)
                            in if access_token c' = Absent then (Raises KeyError, s3)
                               else (Returns (base_url, access_token c'), s3))))) = tracking s3"
    for c' s3
    by (simp add: Let_def split: field.splits)
  have k2: "tracking (snd (then_do (if expired then run_refresh_token i False s2
                           else (Returns c, s2))
                    (\<lambda>c' s3.
                       case resource_url c' of
                         Null \<Rightarrow> (Raises AttributeError, s3)
                       | url \<Rightarrow>
                           (let u = (case url of Val v \<Rightarrow> v | _ \<Rightarrow> DEFAULT_BASE_URL);
                                base_url = (if startswith u ''http'' then u else ''https://'' @ u)
                            in if access_token c' = Absent then (Raises KeyError, s3)
                               else (Returns (base_url, access_token c'), s3))))) = tracking s2"
    for expired c s2
    by (rule then_do_tracking) (simp_all add: refresh_token_tracking k3)
  have "tracking (snd (then_do (load_credentials i s)
          (\<lambda>c s1.
             then_do (is_token_expired c s1)
               (\<lambda>expired s2.
                  then_do (if expired then run_refresh_token i False s2
                           else (Returns c, s2))
                    (\<lambda>c' s3.
                       case resource_url c' of
                         Null \<Rightarrow> (Raises AttributeError, s3)
                       | url \<Rightarrow>
                           (let u = (case url of Val v \<Rightarrow> v | _ \<Rightarrow> DEFAULT_BASE_URL);
                                base_url = (if startswith u ''http'' then u else ''https://'' @ u)
                            in if access_token c' = Absent then (Raises KeyError, s3)
                               else (Returns (base_url, access_token c'), s3))))))) = tracking s"
    by (rule then_do_tracking [OF load_credentials_tracking],
        rule then_do_tracking [OF is_token_expired_tracking], rule k2)
  with True show ?thesis by (simp add: get_api_details_def)
qed

text \<open>
  The state after \<^verbatim>\<open>__init__\<close> has the property that every unavailable credential is a
  queued one, and every method keeps it.
\<close>

lemma tracked_init: "tracked_inv (init_state w)"
  by (simp add: tracked_inv_def init_state_def)

lemma tracked_queue_refresh:
  "tracked_inv s \<Longrightarrow> tracked_inv (queue_refresh p force needs_reauth s)"
  by (auto simp add: tracked_inv_def queue_refresh_def enqueue_tracked_def time_time_def Let_def
      split: if_splits)

lemma tracked_is_available:
  "tracked_inv s \<Longrightarrow> tracked_inv (snd (is_credential_available p s))"
  by (auto simp add: tracked_inv_def is_credential_available_def time_time_def Let_def
      split: option.splits if_splits)

lemma load_credentials_held_frame:
  assumes "p \<in> refresh_locks s"
  shows "snd (load_credentials p s) = s"
  using assms
  by (cases "credentials_cache s p")
     (simp_all add: load_credentials_cached load_credentials_held)

lemma worker_item_held_frame:
  assumes "p \<in> refresh_locks s"
  shows "queued_credentials (snd (worker_item p force s)) = queued_credentials s \<and>
         dom (unavailable_credentials (snd (worker_item p force s))) \<subseteq>
           dom (unavailable_credentials s)"
proof (cases "credentials_cache s p")
  case None
  with assms show ?thesis
    by (simp add: worker_item_def then_do_def dict_truthy_def load_credentials_held)
next
  case (Some c)
  show ?thesis
  proof (cases "c = empty_creds")
    case True
    with Some assms show ?thesis
      by (simp add: worker_item_def then_do_def dict_truthy_def load_credentials_cached
          run_refresh_token_held)
  next
    case False
    from is_token_expired_cases [of c s] show ?thesis
    proof
      assume "is_token_expired c s = (Raises TypeError, s)"
      with Some False show ?thesis by (simp add: worker_item_def then_do_def)
    next
      assume "\<exists>b. is_token_expired c s = (Returns b, s\<lparr>ticks := Suc (ticks s)\<rparr>)"
      then obtain b where "is_token_expired c s = (Returns b, s\<lparr>ticks := Suc (ticks s)\<rparr>)" ..
      with Some False assms show ?thesis
        by (cases b)
           (auto simp add: worker_item_def then_do_def dict_truthy_def mark_available_def
             run_refresh_token_held)
    qed
  qed
qed

lemma tracked_worker_turn:
  assumes "tracked_inv s"
  shows "tracked_inv (snd (process_refresh_queue_turn s))"
proof (cases "refresh_queue s")
  case Nil
  then show ?thesis by (simp add: process_refresh_queue_turn_def tracked_inv_def)
next
  case (Cons item rest)
  obtain p force needs_reauth where item: "item = (p, force, needs_reauth)" by (cases item) auto
  let ?s0 = "s\<lparr>refresh_queue := rest\<rparr>"
  let ?s1 = "?s0\<lparr>refresh_locks := insert p (refresh_locks ?s0)\<rparr>"
  show ?thesis
  proof (cases "p \<in> refresh_locks s")
    case True
    with Cons item assms show ?thesis
      by (simp add: process_refresh_queue_turn_def with_lock_def tracked_inv_def)
  next
    case False
    obtain r s2 where w: "worker_item p force ?s1 = (r, s2)" by (cases "worker_item p force ?s1") auto
    have "p \<in> refresh_locks ?s1" by simp
    from worker_item_held_frame [OF this, of force] w
    have fr: "queued_credentials s2 = queued_credentials s"
      "dom (unavailable_credentials s2) \<subseteq> dom (unavailable_credentials s)" by simp_all
    with assms have "dom (unavailable_credentials s2) \<subseteq> queued_credentials s2"
      by (auto simp add: tracked_inv_def)
    then have "tracked_inv s2" "tracked_inv (finally_cleanup p (release p s2))"
      "tracked_inv (error_cleanup p (finally_cleanup p (release p s2)))"
      by (auto simp add: tracked_inv_def finally_cleanup_def release_def error_cleanup_def
          mark_available_def)
    with Cons item False w show ?thesis
      by (cases r) (simp_all add: process_refresh_queue_turn_def with_lock_def)
  qed
qed

lemma tracked_by_tracking: "tracking s' = tracking s \<Longrightarrow> tracked_inv s \<Longrightarrow> tracked_inv s'"
  by (simp add: tracking_def tracked_inv_def)

lemma tracked_refresh_token:
  "tracked_inv s \<Longrightarrow> tracked_inv (snd (run_refresh_token p force s))"
  by (rule tracked_by_tracking [OF refresh_token_tracking])

lemma tracked_initialize_token:
  "tracked_inv s \<Longrightarrow> tracked_inv (snd (initialize_token p s))"
  by (rule tracked_by_tracking [OF initialize_token_tracking])

lemma tracked_get_api_details:
  "tracked_inv s \<Longrightarrow> tracked_inv (snd (get_api_details i s))"
  by (rule tracked_by_tracking [OF get_api_details_tracking])

lemma tracked_proactively_refresh:
  assumes "tracked_inv s"
  shows "tracked_inv (snd (proactively_refresh i s))"
proof -
  obtain r s1 where l: "load_credentials i s = (r, s1)" by (cases "load_credentials i s") auto
  with load_credentials_tracking [of i s] assms have t1: "tracked_inv s1"
    by (simp add: tracked_by_tracking)
  have k: "tracked_inv (snd (then_do (is_token_expired c s1)
            (\<lambda>is_expired s2.
               (Returns (),
                if is_expired then queue_refresh i False False s2 else s2))))" for c
  proof -
    obtain r2 s2 where e: "is_token_expired c s1 = (r2, s2)"
      by (cases "is_token_expired c s1") auto
    with is_token_expired_tracking [of c s1] t1 have "tracked_inv s2"
      by (simp add: tracked_by_tracking)
    with e show ?thesis
      by (cases r2) (simp_all add: then_do_def tracked_queue_refresh)
  qed
  from l t1 k show ?thesis
    by (cases r) (auto simp add: proactively_refresh_def split: exn.splits)
qed

text \<open>
  C2. Take a state in which every unavailable credential is a queued one; the state after
  \<^verbatim>\<open>__init__\<close> is such a state and every method of the class leaves such a state in such
  a state (\<open>tracked_init\<close>, \<open>tracked_queue_refresh\<close>, \<open>tracked_is_available\<close>,
  \<open>tracked_worker_turn\<close>, \<open>tracked_refresh_token\<close>, \<open>tracked_initialize_token\<close>,
  \<open>tracked_get_api_details\<close>, \<open>tracked_proactively_refresh\<close>). There a call of
  \<^verbatim>\<open>_queue_refresh\<close> does what the claim says. When \<open>needs_reauth\<close> is false and the clock
  read by the call is before the credential's backoff timer, nothing changes (but the clock
  having been read). When the credential is in the queued set or in the unavailable
  dictionary, nothing changes either (but the clock, read when \<open>needs_reauth\<close> is false).
  Otherwise the credential is put at the end of the queue, into the queued set and into the
  unavailable dictionary with the time then read, and the worker is started.
\<close>

theorem queue_refresh_admission:
  assumes "tracked_inv s"
  shows "(\<not> needs_reauth \<and> in_backoff p (clock s (ticks s)) s \<longrightarrow>
            queue_refresh p force needs_reauth s = s\<lparr>ticks := Suc (ticks s)\<rparr>) \<and>
         (p \<in> queued_credentials s \<or> unavailable_credentials s p \<noteq> None \<longrightarrow>
            queue_refresh p force needs_reauth s =
              (if needs_reauth then s else s\<lparr>ticks := Suc (ticks s)\<rparr>)) \<and>
         (\<not> (\<not> needs_reauth \<and> in_backoff p (clock s (ticks s)) s) \<and>
          p \<notin> queued_credentials s \<and> unavailable_credentials s p = None \<longrightarrow>
            queue_refresh p force needs_reauth s =
              s\<lparr>queued_credentials := insert p (queued_credentials s),
                ticks := (if needs_reauth then Suc (ticks s) else Suc (Suc (ticks s))),
                unavailable_credentials :=
                  (unavailable_credentials s)
                    (p \<mapsto> clock s (if needs_reauth then ticks s else Suc (ticks s))),
                refresh_queue := refresh_queue s @ [(p, force, needs_reauth)],
                queue_processor_task := True\<rparr>)"
proof -
  from assms have q: "unavailable_credentials s p \<noteq> None \<longrightarrow> p \<in> queued_credentials s"
    by (auto simp add: tracked_inv_def)
  have d: "p \<in> queued_credentials s \<Longrightarrow>
           queue_refresh p force needs_reauth s =
             (if needs_reauth then s else s\<lparr>ticks := Suc (ticks s)\<rparr>)"
    by (simp add: queue_refresh_def enqueue_tracked_def time_time_def Let_def)
  from q d queue_refresh_cases [of needs_reauth p s force] show ?thesis by blast
qed

theorem queue_refresh_admission_witness:
  "queue_refresh ''a.json'' False False
     (quiet_world\<lparr>next_refresh_after := [''a.json'' \<mapsto> 2000]\<rparr>) =
     quiet_world\<lparr>next_refresh_after := [''a.json'' \<mapsto> 2000], ticks := 1\<rparr>
   \<and> queue_refresh ''a.json'' True True
       (quiet_world\<lparr>queued_credentials := {''a.json''},
          unavailable_credentials := [''a.json'' \<mapsto> 990]\<rparr>) =
     quiet_world\<lparr>queued_credentials := {''a.json''},
       unavailable_credentials := [''a.json'' \<mapsto> 990]\<rparr>
   \<and> queue_refresh ''a.json'' False True
       (quiet_world\<lparr>next_refresh_after := [''a.json'' \<mapsto> 2000]\<rparr>) =
     quiet_world\<lparr>next_refresh_after := [''a.json'' \<mapsto> 2000],
       queued_credentials := {''a.json''}, ticks := 1,
       unavailable_credentials := [''a.json'' \<mapsto> 1000],
       refresh_queue := [(''a.json'', False, True)], queue_processor_task := True\<rparr>"
  using
    queue_refresh_admission
      [of "quiet_world\<lparr>next_refresh_after := [''a.json'' \<mapsto> 2000]\<rparr>" False "''a.json''" False]
    queue_refresh_admission
      [of "quiet_world\<lparr>queued_credentials := {''a.json''},
             unavailable_credentials := [''a.json'' \<mapsto> 990]\<rparr>" True "''a.json''" True]
    queue_refresh_admission
      [of "quiet_world\<lparr>next_refresh_after := [''a.json'' \<mapsto> 2000]\<rparr>" True "''a.json''" False]
  by (simp add: quiet_world_def in_backoff_def tracked_inv_def)

section \<open>The bound on the depth of the calls is never reached\<close>

lemma then_do_fuel:
  assumes "fst r \<noteq> OutOfFuel" and "\<And>x s. fst (k x s) \<noteq> OutOfFuel"
  shows "fst (then_do r k) \<noteq> OutOfFuel"
  using assms by (cases r; cases "fst r") (auto simp add: then_do_def)

lemma is_token_expired_fuel: "fst (is_token_expired c s) \<noteq> OutOfFuel"
  using is_token_expired_cases [of c s] by auto

lemma save_credentials_fuel: "fst (save_credentials p c s) \<noteq> OutOfFuel"
  by (simp add: save_credentials_def write_file_def split: field.splits)

lemma load_uncached_fuel: "fst (load_uncached p s) \<noteq> OutOfFuel"
  by (simp add: load_uncached_def read_creds_from_file_def
      split: option.splits prod.splits file_content.splits)

lemma with_lock_fuel:
  "(\<And>s'. fst (body s') \<noteq> OutOfFuel) \<Longrightarrow> fst (with_lock p body s) \<noteq> OutOfFuel"
proof -
  assume a: "\<And>s'. fst (body s') \<noteq> OutOfFuel"
  show ?thesis
  proof (cases "p \<in> refresh_locks s")
    case True
    then show ?thesis by (simp add: with_lock_def)
  next
    case False
    obtain r s' where b: "body (s\<lparr>refresh_locks := insert p (refresh_locks s)\<rparr>) = (r, s')"
      by (cases "body (s\<lparr>refresh_locks := insert p (refresh_locks s)\<rparr>)") auto
    with a [of "s\<lparr>refresh_locks := insert p (refresh_locks s)\<rparr>"] have "r \<noteq> OutOfFuel" by simp
    with False b show ?thesis by (cases r) (simp_all add: with_lock_def)
  qed
qed

lemma load_credentials_fuel: "fst (load_credentials p s) \<noteq> OutOfFuel"
  by (cases "credentials_cache s p")
     (simp_all add: load_credentials_def with_lock_fuel load_uncached_fuel)

lemma store_refreshed_fuel: "fst (store_refreshed p d s) \<noteq> OutOfFuel"
proof (cases "credentials_cache s p")
  case None
  then show ?thesis by (simp add: store_refreshed_def)
next
  case (Some c)
  have sv: "\<And>c5 s3. fst (then_do (save_credentials p c5 s3) (\<lambda>_ s4. (Returns c5, s4))) \<noteq> OutOfFuel"
    by (rule then_do_fuel) (simp_all add: save_credentials_fuel)
  from Some show ?thesis
    unfolding store_refreshed_def
    by (simp add: Let_def time_time_def sv split: field.splits)
qed

lemma perform_interactive_oauth_fuel: "fst (perform_interactive_oauth p s) \<noteq> OutOfFuel"
proof -
  have sv: "\<And>c5 s3. fst (then_do (save_credentials p c5 s3) (\<lambda>_ s4. (Returns c5, s4))) \<noteq> OutOfFuel"
    by (rule then_do_fuel) (simp_all add: save_credentials_fuel)
  show ?thesis
    unfolding perform_interactive_oauth_def
    by (simp add: Let_def time_time_def sv split: field.splits flow_result.splits option.splits)
qed

lemma on_exception_fuel:
  assumes "fst r \<noteq> OutOfFuel" and "\<And>e s. fst (h e s) \<noteq> OutOfFuel"
  shows "fst (on_exception r h) \<noteq> OutOfFuel"
  using assms by (cases r; cases "fst r") (auto simp add: on_exception_def)

lemma initialize_body_fuel:
  assumes "\<And>s'. fst (refr p s') \<noteq> OutOfFuel"
  shows "fst (initialize_body refr p s) \<noteq> OutOfFuel"
proof -
  define interactive where "interactive = execute_reauth (perform_interactive_oauth p)"
  define call where
    "call = (\<lambda>s2. case refr p s2 of (Raises e, s3) \<Rightarrow> interactive s3 | other \<Rightarrow> other)"
  define k2 where
    "k2 = (\<lambda>c expired s2. if expired then call s2 else (Returns c, s2))"
  define k1 where
    "k1 = (\<lambda>c s1. if \<not> truthy (refresh_token c) then interactive s1
                    else then_do (is_token_expired c s1) (k2 c))"
  have inter: "\<And>s'. fst (interactive s') \<noteq> OutOfFuel"
    by (simp add: interactive_def execute_reauth_def perform_interactive_oauth_fuel)
  have c: "\<And>s2. fst (call s2) \<noteq> OutOfFuel"
  proof -
    fix s2
    obtain r s3 where a: "refr p s2 = (r, s3)" by (cases "refr p s2") auto
    with assms [of s2] have "r \<noteq> OutOfFuel" by simp
    with a inter [of s3] show "fst (call s2) \<noteq> OutOfFuel"
      by (cases r) (simp_all add: call_def)
  qed
  have f2: "\<And>c expired s2. fst (k2 c expired s2) \<noteq> OutOfFuel"
    by (simp add: k2_def c)
  have f1: "\<And>c s1. fst (k1 c s1) \<noteq> OutOfFuel"
  proof -
    fix c s1
    have "fst (then_do (is_token_expired c s1) (k2 c)) \<noteq> OutOfFuel"
      by (rule then_do_fuel [OF is_token_expired_fuel]) (rule f2)
    then show "fst (k1 c s1) \<noteq> OutOfFuel"
      by (simp add: k1_def inter)
  qed
  have body: "fst (if p = [] then (Raises AttributeError, s)
                   else then_do (load_credentials p s) k1) \<noteq> OutOfFuel"
  proof (cases "p = []")
    case True
    then show ?thesis by simp
  next
    case False
    have "fst (then_do (load_credentials p s) k1) \<noteq> OutOfFuel"
      by (rule then_do_fuel [OF load_credentials_fuel]) (rule f1)
    with False show ?thesis by simp
  qed
  have "initialize_body refr p s =
          on_exception (if p = [] then (Raises AttributeError, s)
                        else then_do (load_credentials p s) k1)
            (\<lambda>e s'. (Raises ValueError, s'))"
    unfolding initialize_body_def k1_def k2_def call_def interactive_def ..
  moreover have "fst (on_exception (if p = [] then (Raises AttributeError, s)
                        else then_do (load_credentials p s) k1)
            (\<lambda>e s'. (Raises ValueError, s'))) \<noteq> OutOfFuel"
    by (rule on_exception_fuel [OF body]) simp
  ultimately show ?thesis by simp
qed

lemma after_retries_fuel:
  assumes "\<And>s'. fst (init p s') \<noteq> OutOfFuel"
  shows "fst (after_retries init p r) \<noteq> OutOfFuel"
proof -
  obtain x le s3 where r: "r = (x, le, s3)" by (cases r) auto
  obtain o4 s4 where i: "init p s3 = (o4, s4)" by (cases "init p s3") auto
  with assms [of s3] have "o4 \<noteq> OutOfFuel" by simp
  with r i show ?thesis
    by (cases x; cases o4)
       (auto simp add: after_retries_def store_refreshed_fuel split: option.splits bool.splits)
qed

lemma cached_if_fresh_fuel: "fst (cached_if_fresh p force s) \<noteq> OutOfFuel"
proof (cases "credentials_cache s p")
  case None
  then show ?thesis by (simp add: cached_if_fresh_def)
next
  case (Some c)
  have "fst (then_do (is_token_expired c s)
               (\<lambda>expired s1. (Returns (if expired then None else Some c), s1))) \<noteq> OutOfFuel"
    by (rule then_do_fuel [OF is_token_expired_fuel]) simp
  with Some show ?thesis by (simp add: cached_if_fresh_def)
qed

lemma cached_or_file_fuel: "fst (cached_or_file p s) \<noteq> OutOfFuel"
  by (simp add: cached_or_file_def read_creds_from_file_def
      split: option.splits file_content.splits)

lemma refresh_locked_fuel:
  assumes "\<And>s'. fst (init p s') \<noteq> OutOfFuel"
  shows "fst (refresh_locked init p force s) \<noteq> OutOfFuel"
  unfolding refresh_locked_def
proof (rule then_do_fuel [OF cached_if_fresh_fuel])
  fix fresh :: "creds option" and s1 :: state
  have ar: "\<And>s2. fst (after_retries init p (retry_loop 0 None s2)) \<noteq> OutOfFuel"
    using assms by (rule after_retries_fuel)
  have "fst (then_do (cached_or_file p s1)
               (\<lambda>creds_from_file s2.
                  if \<not> truthy (refresh_token creds_from_file) then (Raises ValueError, s2)
                  else after_retries init p (retry_loop 0 None s2))) \<noteq> OutOfFuel"
    by (rule then_do_fuel [OF cached_or_file_fuel]) (simp add: ar)
  then show "fst (case fresh of
                    None \<Rightarrow> then_do (cached_or_file p s1)
                      (\<lambda>creds_from_file s2.
                         if \<not> truthy (refresh_token creds_from_file) then (Raises ValueError, s2)
                         else after_retries init p (retry_loop 0 None s2))
                  | Some cached_creds \<Rightarrow> (Returns cached_creds, s1)) \<noteq> OutOfFuel"
    by (cases fresh) simp_all
qed

lemma refresh_token_never_out_of_fuel: "fst (run_refresh_token p force s) \<noteq> OutOfFuel"
proof (cases "p \<in> refresh_locks s")
  case True
  then show ?thesis by (simp add: run_refresh_token_held)
next
  case False
  let ?s1 = "s\<lparr>refresh_locks := insert p (refresh_locks s)\<rparr>"
  let ?blocked = "\<lambda>(q::path) (s'::state). (Blocks :: creds outcome, s')"
  have "refresh_locked (initialize_token_fuel (Suc (Suc 0))) p force ?s1 =
        refresh_locked (\<lambda>q. initialize_body ?blocked q) p force ?s1"
  proof (rule refresh_locked_cong_held)
    show "p \<in> refresh_locks ?s1" by simp
  next
    fix s' :: state
    assume h: "p \<in> refresh_locks s'"
    have "initialize_body (\<lambda>q. refresh_token_fuel (Suc 0) q False) p s' =
          initialize_body ?blocked p s'"
      by (rule initialize_body_cong_held [OF h]) (simp add: with_lock_held)
    then show "initialize_token_fuel (Suc (Suc 0)) p s' = initialize_body ?blocked p s'"
      by simp
  qed
  moreover have "fst (refresh_locked (\<lambda>q. initialize_body ?blocked q) p force ?s1) \<noteq> OutOfFuel"
    by (rule refresh_locked_fuel) (rule initialize_body_fuel, simp)
  ultimately have "fst (refresh_locked (initialize_token_fuel 2) p force ?s1) \<noteq> OutOfFuel"
    by (simp add: numeral_2_eq_2 del: initialize_token_fuel.simps)
  then show ?thesis
    by (cases "refresh_locked (initialize_token_fuel 2) p force ?s1";
        cases "fst (refresh_locked (initialize_token_fuel 2) p force ?s1)")
       (simp_all add: run_refresh_token_unlocked [OF False])
qed

lemma initialize_token_never_out_of_fuel: "fst (initialize_token p s) \<noteq> OutOfFuel"
proof -
  have "initialize_token p s = initialize_body (\<lambda>q. run_refresh_token q False) p s"
    by (simp add: initialize_token_def run_refresh_token_def eval_nat_numeral)
  moreover have "fst (initialize_body (\<lambda>q. run_refresh_token q False) p s) \<noteq> OutOfFuel"
    by (rule initialize_body_fuel) (rule refresh_token_never_out_of_fuel)
  ultimately show ?thesis by simp
qed

section \<open>Numbered API keys\<close>

text \<open>
  C8 fails on \<^verbatim>\<open>CredentialManager._discover_api_keys\<close>: it deletes the text
  \<^verbatim>\<open>_API_KEY\<close> from the variable name, so the number stays in the provider name, and
  \<^verbatim>\<open>GEMINI_API_KEY_1\<close> and \<^verbatim>\<open>GEMINI_API_KEY_2\<close> become one credential each of the
  providers \<^verbatim>\<open>gemini_1\<close> and \<^verbatim>\<open>gemini_2\<close>. The loop of \<^verbatim>\<open>main.py\<close>, which takes what
  precedes \<^verbatim>\<open>_API_KEY\<close>, makes them the first and second key of \<^verbatim>\<open>gemini\<close>.
\<close>

theorem numbered_api_key_provider_name:
  "discover_api_keys [(''GEMINI_API_KEY_1'', ''k1''), (''GEMINI_API_KEY_2'', ''k2'')] [] =
     [(''gemini_1'', [''env://GEMINI_API_KEY_1'']), (''gemini_2'', [''env://GEMINI_API_KEY_2''])]
   \<and> main_api_keys [(''GEMINI_API_KEY_1'', ''k1''), (''GEMINI_API_KEY_2'', ''k2'')] [] =
     [(''gemini'', [''k1'', ''k2''])]"
  by (simp add: startswith_def lower_def lower_char_def)

section \<open>One interactive flow at a time\<close>

lemma inv_new: "coordinator_inv new_coordinator"
  by (simp add: coordinator_inv_def new_coordinator_def)

lemma inv_same_places:
  assumes "coordinator_inv k"
    and "\<And>c r t. (callers k' c = Awaiting r t) = (callers k c = Awaiting r t)"
    and "\<And>c r t. (callers k' c = Joined r t) = (callers k c = Joined r t)"
    and "active_reauth_lock k' = active_reauth_lock k"
    and "\<And>t. tasks k' t = Some Running \<Longrightarrow> tasks k t = Some Running"
    and "active_reauth_tasks k' = active_reauth_tasks k"
  shows "coordinator_inv k'"
proof -
  have 4: "\<forall>t. tasks k' t = Some Running \<longrightarrow> (\<exists>c r. callers k' c = Awaiting r t)"
  proof (intro allI impI)
    fix t assume "tasks k' t = Some Running"
    then have "tasks k t = Some Running" by (rule assms(5))
    with assms(1) obtain c r where "callers k c = Awaiting r t"
      unfolding coordinator_inv_def by blast
    then show "\<exists>c r. callers k' c = Awaiting r t" using assms(2) by blast
  qed
  from assms(1) have "(\<forall>c r t. callers k c \<noteq> Joined r t) \<and>
      (\<forall>c c' r r' t t'. callers k c = Awaiting r t \<and> callers k c' = Awaiting r' t' \<longrightarrow> c = c') \<and>
      (\<forall>c r t. callers k c = Awaiting r t \<longrightarrow> active_reauth_lock k) \<and>
      (\<forall>r t. active_reauth_tasks k r = Some t \<longrightarrow> (\<exists>c. callers k c = Awaiting r t))"
    unfolding coordinator_inv_def by blast
  then have "(\<forall>c r t. callers k' c \<noteq> Joined r t) \<and>
      (\<forall>c c' r r' t t'. callers k' c = Awaiting r t \<and> callers k' c' = Awaiting r' t' \<longrightarrow> c = c') \<and>
      (\<forall>c r t. callers k' c = Awaiting r t \<longrightarrow> active_reauth_lock k') \<and>
      (\<forall>r t. active_reauth_tasks k' r = Some t \<longrightarrow> (\<exists>c. callers k' c = Awaiting r t))"
    by (simp add: assms(2,3,4,6))
  with 4 show ?thesis unfolding coordinator_inv_def by blast
qed

lemma inv_call: "coordinator_inv k \<Longrightarrow> coordinator_inv (coordinator_step (Call c r) k)"
proof (cases "callers k c = NotCalled")
  case True
  assume inv: "coordinator_inv k"
  have "coordinator_inv (k\<lparr>callers := (callers k)(c := WaitingForLock r)\<rparr>)"
    using inv by (rule inv_same_places) (use True in \<open>auto\<close>)
  with True show ?thesis by simp
next
  case False
  assume "coordinator_inv k"
  with False show ?thesis by simp
qed

lemma inv_task_ends: "coordinator_inv k \<Longrightarrow> coordinator_inv (coordinator_step (TaskEnds t r) k)"
proof (cases "tasks k t = Some Running")
  case True
  assume inv: "coordinator_inv k"
  have "coordinator_inv (k\<lparr>tasks := (tasks k)(t \<mapsto> Done r)\<rparr>)"
    using inv by (rule inv_same_places) (auto split: if_splits)
  with True show ?thesis by simp
next
  case False
  assume "coordinator_inv k"
  with False show ?thesis by simp
qed


lemma inv_acquire: "coordinator_inv k \<Longrightarrow> coordinator_inv (coordinator_step (Acquire c) k)"
proof (cases "callers k c")
  case (WaitingForLock r)
  assume inv: "coordinator_inv k"
  show ?thesis
  proof (cases "active_reauth_lock k")
    case True
    with WaitingForLock inv show ?thesis by simp
  next
    case False
    have none: "\<And>c r t. callers k c \<noteq> Awaiting r t"
      using inv False unfolding coordinator_inv_def by blast
    have nj: "\<And>c r t. callers k c \<noteq> Joined r t"
      using inv unfolding coordinator_inv_def by blast
    have run: "\<And>t. tasks k t \<noteq> Some Running"
      using inv none unfolding coordinator_inv_def by blast
    have act: "\<And>r. active_reauth_tasks k r = None"
    proof -
      fix r
      show "active_reauth_tasks k r = None"
      proof (cases "active_reauth_tasks k r")
        case (Some t)
        with inv obtain c where "callers k c = Awaiting r t"
          unfolding coordinator_inv_def by blast
        with none show ?thesis by blast
      qed simp
    qed
    have idle: "in_flight (k\<lparr>active_reauth_lock := True\<rparr>) r = None"
      by (simp add: in_flight_def act)
    let ?k' = "create_task c r (k\<lparr>active_reauth_lock := True\<rparr>)"
    have step: "coordinator_step (Acquire c) k = ?k'"
      using WaitingForLock False idle by simp
    have ca: "\<And>c' r' t'. (callers ?k' c' = Awaiting r' t') = (c' = c \<and> r' = r \<and> t' = created k)"
      using none by (auto simp add: create_task_def)
    have cj: "\<And>c' r' t'. callers ?k' c' \<noteq> Joined r' t'"
      using nj by (simp add: create_task_def)
    have ct: "\<And>t. (tasks ?k' t = Some Running) = (t = created k)"
      using run by (auto simp add: create_task_def)
    have cr: "\<And>r' t. (active_reauth_tasks ?k' r' = Some t) = (r' = r \<and> t = created k)"
      using act by (auto simp add: create_task_def)
    have cl: "active_reauth_lock ?k'" by (simp add: create_task_def)
    have "coordinator_inv ?k'"
      unfolding coordinator_inv_def by (simp add: ca cj ct cr cl)
    with step show ?thesis by simp
  qed
qed (simp_all)


lemma inv_leave:
  assumes inv: "coordinator_inv k"
    and aw: "callers k c = Awaiting r t"
    and nr: "tasks k' t \<noteq> Some Running"
    and tk: "\<And>t'. t' \<noteq> t \<Longrightarrow> tasks k' t' = tasks k t'"
    and cs: "callers k' = callers k"
    and ac: "active_reauth_tasks k' = active_reauth_tasks k"
  shows "coordinator_inv (leave c r res k')"
proof -
  let ?k = "leave c r res k'"
  have only: "\<And>c' r' t'. callers k c' = Awaiting r' t' \<Longrightarrow> c' = c"
    using inv aw unfolding coordinator_inv_def by blast
  have na: "\<And>c' r' t'. callers ?k c' \<noteq> Awaiting r' t'"
    using only by (auto simp add: leave_def cs)
  have nj: "\<And>c' r' t'. callers ?k c' \<noteq> Joined r' t'"
    using inv unfolding coordinator_inv_def by (auto simp add: leave_def cs)
  have nrun: "\<And>t'. tasks ?k t' \<noteq> Some Running"
  proof
    fix t' assume a: "tasks ?k t' = Some Running"
    then have b: "tasks k' t' = Some Running" by (simp add: leave_def)
    with nr have "t' \<noteq> t" by auto
    with b tk have "tasks k t' = Some Running" by simp
    with inv obtain c' r' where "callers k c' = Awaiting r' t'"
      unfolding coordinator_inv_def by blast
    with only aw \<open>t' \<noteq> t\<close> show False by fastforce
  qed
  have nact: "\<And>r' t'. active_reauth_tasks ?k r' \<noteq> Some t'"
  proof
    fix r' t' assume a: "active_reauth_tasks ?k r' = Some t'"
    then have "r' \<noteq> r" and "active_reauth_tasks k r' = Some t'"
      by (auto simp add: leave_def ac split: if_splits)
    with inv obtain c' where "callers k c' = Awaiting r' t'"
      unfolding coordinator_inv_def by blast
    with only aw \<open>r' \<noteq> r\<close> show False by fastforce
  qed
  show ?thesis unfolding coordinator_inv_def by (simp add: na nj nrun nact)
qed

lemma inv_resume: "coordinator_inv k \<Longrightarrow> coordinator_inv (coordinator_step (Resume c) k)"
proof (cases "callers k c")
  case (Awaiting r t)
  assume inv: "coordinator_inv k"
  show ?thesis
  proof (cases "tasks k t")
    case None
    with Awaiting inv show ?thesis by simp
  next
    case (Some st)
    show ?thesis
    proof (cases st)
      case (Done res)
      have "coordinator_inv (leave c r res k)"
        using inv Awaiting by (rule inv_leave) (simp_all add: Some Done)
      with Awaiting Some Done show ?thesis by simp
    qed (use Awaiting Some inv in simp_all)
  qed
next
  case (Joined r t)
  assume "coordinator_inv k"
  with Joined show ?thesis unfolding coordinator_inv_def by blast
qed (simp_all)

lemma inv_timeout: "coordinator_inv k \<Longrightarrow> coordinator_inv (coordinator_step (Timeout c) k)"
proof (cases "callers k c")
  case (Awaiting r t)
  assume inv: "coordinator_inv k"
  show ?thesis
  proof (cases "tasks k t = Some Running")
    case True
    have "coordinator_inv (leave c r (Failed TimeoutError) (k\<lparr>tasks := (tasks k)(t \<mapsto> Cancelled)\<rparr>))"
      using inv Awaiting by (rule inv_leave) simp_all
    with Awaiting True show ?thesis by simp
  next
    case False
    with Awaiting inv show ?thesis by simp
  qed
next
  case (Joined r t)
  assume "coordinator_inv k"
  with Joined show ?thesis unfolding coordinator_inv_def by blast
qed (simp_all)

lemma inv_step: "coordinator_inv k \<Longrightarrow> coordinator_inv (coordinator_step e k)"
  by (cases e) (simp_all only: inv_call inv_acquire inv_task_ends inv_resume inv_timeout)

lemma inv_run: "coordinator_inv k \<Longrightarrow> coordinator_inv (run_events es k)"
  by (induction es arbitrary: k) (simp_all add: inv_step)

lemma one_flow_at_a_time:
  assumes "t \<in> flows_active (run_events es new_coordinator)"
    and "t' \<in> flows_active (run_events es new_coordinator)"
  shows "t = t'"
proof -
  let ?k = "run_events es new_coordinator"
  have inv: "coordinator_inv ?k" by (rule inv_run [OF inv_new])
  from assms have run: "tasks ?k t = Some Running" "tasks ?k t' = Some Running"
    by (simp_all add: flows_active_def)
  from run(1) inv obtain c r where a: "callers ?k c = Awaiting r t"
    unfolding coordinator_inv_def by blast
  from run(2) inv obtain c' r' where b: "callers ?k c' = Awaiting r' t'"
    unfolding coordinator_inv_def by blast
  from a b inv have "c = c'" unfolding coordinator_inv_def by blast
  with a b show ?thesis by simp
qed

lemma never_joined: "callers (run_events es new_coordinator) c \<noteq> Joined r t"
  using inv_run [OF inv_new, of es] unfolding coordinator_inv_def by blast

text \<open>A caller whose flow is still running when its \<^verbatim>\<open>wait_for\<close> times out.\<close>

lemma reauth_timeout:
  assumes "callers k c = Awaiting r t" and "tasks k t = Some Running"
  shows "callers (coordinator_step (Timeout c) k) c = Finished (Failed TimeoutError) \<and>
         tasks (coordinator_step (Timeout c) k) t = Some Cancelled \<and>
         \<not> active_reauth_lock (coordinator_step (Timeout c) k)"
  using assms by (simp add: leave_def)

text \<open>
  C5 fails on the code in its middle part. Two callers ask for the same
  \<^verbatim>\<open>reauth_id\<close>. While the flow of the first runs, the second cannot get the lock: it
  waits, and does not join the task. When the first is done (its task removed from the
  dictionary before the lock is freed), the second gets the lock, finds no task in
  flight, and starts a second flow, task number 1. The other two parts hold:
  \<open>one_flow_at_a_time\<close> and \<open>reauth_timeout\<close>.
\<close>

theorem second_reauth_starts_second_flow:
  "callers (run_events [Call 0 ''QWEN_CODE:a.json'', Acquire 0, Call 1 ''QWEN_CODE:a.json'',
             Acquire 1] new_coordinator) 1 = WaitingForLock ''QWEN_CODE:a.json'' \<and>
   tasks (run_events [Call 0 ''QWEN_CODE:a.json'', Acquire 0, Call 1 ''QWEN_CODE:a.json'',
             Acquire 1] new_coordinator) 0 = Some Running \<and>
   callers (run_events [Call 0 ''QWEN_CODE:a.json'', Acquire 0, Call 1 ''QWEN_CODE:a.json'',
             Acquire 1, TaskEnds 0 Completed, Resume 0, Acquire 1] new_coordinator) 1 =
     Awaiting ''QWEN_CODE:a.json'' 1 \<and>
   tasks (run_events [Call 0 ''QWEN_CODE:a.json'', Acquire 0, Call 1 ''QWEN_CODE:a.json'',
             Acquire 1, TaskEnds 0 Completed, Resume 0, Acquire 1] new_coordinator) 1 =
     Some Running \<and>
   created (run_events [Call 0 ''QWEN_CODE:a.json'', Acquire 0, Call 1 ''QWEN_CODE:a.json'',
             Acquire 1, TaskEnds 0 Completed, Resume 0, Acquire 1] new_coordinator) = 2"
  by (simp add: new_coordinator_def create_task_def in_flight_def leave_def)

end
